theory Spec2Isabelle
  imports Complex_Main "HOL-Library.AList"
begin

section \<open>Python primitives used by the simulation engine\<close>

text \<open>
  Floating-point numbers are modelled as reals, Python integers as \<open>int\<close>, dictionaries as
  association lists in insertion order (Python dictionaries iterate in insertion order and
  \<open>d[k] = v\<close> on an existing key keeps the key's position, as \<open>AList.update\<close> does).

  Randomness is made explicit: every call of the \<open>random\<close>, \<open>uuid\<close> and \<open>faker\<close> modules
  takes its outcome from a record of draws that the caller passes in. A draw named \<open>u_...\<close>
  is the value returned by \<open>random.random()\<close>, which lies in \<open>[0, 1)\<close>; a draw named
  \<open>k_...\<close> is the value returned by \<open>_randbelow(n)\<close>, which lies below \<open>n\<close>.
\<close>

datatype error = IndexError | KeyError | NameError | ValueError | ZeroDivisionError

type_synonym coord = "real \<times> real"

text \<open>\<open>random.uniform(a, b)\<close> is \<open>a + (b - a) * random()\<close>.\<close>

definition uniform :: "real \<Rightarrow> real \<Rightarrow> real \<Rightarrow> real" where
  "uniform a b u = a + (b - a) * u"

text \<open>\<open>random.choice(seq)\<close> raises \<open>IndexError\<close> on an empty sequence and returns
  \<open>seq[_randbelow(len(seq))]\<close> otherwise.\<close>

definition random_choice :: "'a list \<Rightarrow> nat \<Rightarrow> error + 'a" where
  "random_choice seq k = (if seq = [] then Inl IndexError else Inr (seq ! k))"

text \<open>\<open>random.randint(a, b)\<close> is \<open>a + _randbelow(b - a + 1)\<close>.\<close>

definition randint :: "int \<Rightarrow> int \<Rightarrow> nat \<Rightarrow> int" where
  "randint a b k = a + int k"

text \<open>\<open>random.choices(population, weights)[0]\<close>: the cumulative weights are bisected at
  \<open>random() * total\<close>, the search being limited to the first \<open>n - 1\<close> entries.\<close>

fun accumulate :: "real \<Rightarrow> real list \<Rightarrow> real list" where
  "accumulate acc [] = []"
| "accumulate acc (w # ws) = (acc + w) # accumulate (acc + w) ws"

definition bisect :: "real list \<Rightarrow> real \<Rightarrow> nat \<Rightarrow> nat" where
  "bisect a x hi = length (takeWhile (\<lambda>c. c \<le> x) (take hi a))"

definition random_choices :: "'a list \<Rightarrow> real list \<Rightarrow> real \<Rightarrow> error + 'a" where
  "random_choices population weights u =
     (let cum_weights = accumulate 0 weights in
      if length cum_weights \<noteq> length population then Inl ValueError
      else if cum_weights = [] then Inl IndexError
      else let total = last cum_weights in
        if total \<le> 0 then Inl ValueError
        else Inr (population ! bisect cum_weights (u * total) (length population - 1)))"

text \<open>\<open>int(x)\<close> of a float truncates toward zero.\<close>

definition py_int :: "real \<Rightarrow> int" where
  "py_int x = (if 0 \<le> x then \<lfloor>x\<rfloor> else \<lceil>x\<rceil>)"

text \<open>\<open>round(x)\<close> rounds to the nearest integer, a tie going to the even neighbour;
  \<open>round(x, n)\<close> does the same at the \<open>n\<close>-th decimal.\<close>

definition py_round :: "real \<Rightarrow> int" where
  "py_round x =
     (let f = \<lfloor>x\<rfloor>; r = x - of_int f in
      if r < 1 / 2 then f
      else if 1 / 2 < r then f + 1
      else if even f then f else f + 1)"

definition py_round_ndigits :: "real \<Rightarrow> nat \<Rightarrow> real" where
  "py_round_ndigits x n = of_int (py_round (x * 10 ^ n)) / 10 ^ n"

subsection \<open>Double-precision arithmetic\<close>

text \<open>
  A Python float is an IEEE 754 binary64 number and every arithmetic operation on floats
  returns the exact result rounded to the nearest such number, a tie going to the even
  significand. \<open>fl\<close> is that rounding: a value of binary exponent \<open>e\<close> is rounded to a
  multiple of \<open>2 ^ (e - 52)\<close>, the exponent being clipped at -1022, below which the
  subnormal numbers share the spacing \<open>2 ^ (-1074)\<close>. Overflow to infinity is outside
  the model; the statements about doubles bound the magnitude of their inputs by
  \<open>2 ^ 1000\<close>, where no operation of the code overflows.
\<close>

definition pow2 :: "int \<Rightarrow> real" where
  "pow2 e = (if 0 \<le> e then 2 ^ nat e else 1 / 2 ^ nat (- e))"

definition ulp_exp :: "real \<Rightarrow> int" where
  "ulp_exp x = max \<lfloor>log 2 \<bar>x\<bar>\<rfloor> (- 1022) - 52"

definition fl :: "real \<Rightarrow> real" where
  "fl x = (if x = 0 then 0 else of_int (py_round (x / pow2 (ulp_exp x))) * pow2 (ulp_exp x))"

text \<open>\<open>random.uniform(a, b)\<close> on doubles: \<open>a + (b - a) * random()\<close>, each operation
  rounded. \<open>math.pi\<close> is the double nearest to \<open>\<pi>\<close>.\<close>

definition uniform_double :: "real \<Rightarrow> real \<Rightarrow> real \<Rightarrow> real" where
  "uniform_double a b u = fl (a + fl (fl (b - a) * u))"

definition math_pi :: real where
  "math_pi = 884279719003555 / 2 ^ 48"

section \<open>city\_grid.py\<close>

record hotspot =
  center :: coord
  radius :: real
  name :: string

record CityGrid =
  lat_range :: "real \<times> real"
  lon_range :: "real \<times> real"
  hotspots :: "(string \<times> hotspot list) list"

definition CityGrid_init :: "real \<times> real \<Rightarrow> real \<times> real \<Rightarrow> CityGrid" where
  "CityGrid_init lat_rng lon_rng =
     \<lparr> lat_range = lat_rng,
       lon_range = lon_rng,
       hotspots =
         [ (''business_districts'',
              [ \<lparr> center = (40.75, -73.98), radius = 0.02, name = ''Midtown'' \<rparr>,
                \<lparr> center = (40.71, -74.01), radius = 0.015, name = ''Financial District'' \<rparr> ]),
           (''residential_areas'',
              [ \<lparr> center = (40.78, -73.95), radius = 0.025, name = ''Upper East Side'' \<rparr>,
                \<lparr> center = (40.73, -73.99), radius = 0.02, name = ''Greenwich Village'' \<rparr>,
                \<lparr> center = (40.80, -73.96), radius = 0.025, name = ''Upper West Side'' \<rparr> ]),
           (''entertainment_zones'',
              [ \<lparr> center = (40.76, -73.98), radius = 0.015, name = ''Times Square'' \<rparr>,
                \<lparr> center = (40.74, -73.99), radius = 0.015, name = ''Chelsea'' \<rparr> ]),
           (''airports'',
              [ \<lparr> center = (40.64, -73.78), radius = 0.03, name = ''JFK Airport'' \<rparr>,
                \<lparr> center = (40.77, -73.87), radius = 0.02, name = ''LaGuardia Airport'' \<rparr> ]) ] \<rparr>"

text \<open>The default arguments of \<open>CityGrid.__init__\<close>.\<close>

definition CityGrid_default :: CityGrid where
  "CityGrid_default = CityGrid_init (40.70, 40.85) (-74.05, -73.90)"

subsection \<open>get\_random\_location\<close>

record loc_draw =
  u_bias :: real
  k_category :: nat
  k_hotspot :: nat
  u_angle :: real
  u_radius :: real
  u_lat :: real
  u_lon :: real

definition get_random_location :: "CityGrid \<Rightarrow> real \<Rightarrow> loc_draw \<Rightarrow> error + coord" where
  "get_random_location self hotspot_bias d =
     (if u_bias d < hotspot_bias then
        (case random_choice (map fst (hotspots self)) (k_category d) of
           Inl e \<Rightarrow> Inl e
         | Inr category \<Rightarrow>
             (case map_of (hotspots self) category of
                None \<Rightarrow> Inl KeyError
              | Some hs \<Rightarrow>
                  (case random_choice hs (k_hotspot d) of
                     Inl e \<Rightarrow> Inl e
                   | Inr h \<Rightarrow>
                       (let angle = uniform 0 (2 * pi) (u_angle d);
                            r = uniform 0 (radius h) (u_radius d);
                            lat_offset = r * cos angle;
                            lon_offset = r * sin angle
                        in Inr (fst (center h) + lat_offset, snd (center h) + lon_offset)))))
      else
        Inr (uniform (fst (lat_range self)) (snd (lat_range self)) (u_lat d),
             uniform (fst (lon_range self)) (snd (lon_range self)) (u_lon d)))"

text \<open>The hotspot that the biased branch selects with the draws \<open>k_category\<close> and
  \<open>k_hotspot\<close>, and the planar distance in degree units used to check a sample against it.\<close>

definition chosen_hotspot :: "CityGrid \<Rightarrow> loc_draw \<Rightarrow> hotspot" where
  "chosen_hotspot self d = snd (hotspots self ! k_category d) ! k_hotspot d"

definition degree_dist :: "coord \<Rightarrow> coord \<Rightarrow> real" where
  "degree_dist p q = sqrt ((fst p - fst q)\<^sup>2 + (snd p - snd q)\<^sup>2)"

definition in_range :: "real \<times> real \<Rightarrow> real \<Rightarrow> bool" where
  "in_range rng x = (min (fst rng) (snd rng) \<le> x \<and> x \<le> max (fst rng) (snd rng))"

subsection \<open>get\_random\_location in double precision\<close>

text \<open>
  \<open>get_random_location\<close> above computes in exact arithmetic; it serves the construction
  of the entity pools, where only the control flow and the error paths of the sampler
  matter. \<open>get_random_location_double\<close> is the same method with every literal and every
  arithmetic operation rounded to a double, as the interpreter computes it; it serves the
  statements about the sampled coordinates. \<open>math.cos\<close> and \<open>math.sin\<close> are functions of
  the platform's C library, which the model takes as the parameters \<open>libm_cos\<close> and
  \<open>libm_sin\<close>.
\<close>

definition sampled_angle :: "loc_draw \<Rightarrow> real" where
  "sampled_angle d = uniform_double 0 (fl (2 * math_pi)) (u_angle d)"

definition get_random_location_double ::
  "(real \<Rightarrow> real) \<Rightarrow> (real \<Rightarrow> real) \<Rightarrow> CityGrid \<Rightarrow> real \<Rightarrow> loc_draw \<Rightarrow> error + coord" where
  "get_random_location_double libm_cos libm_sin self hotspot_bias d =
     (if u_bias d < fl hotspot_bias then
        (case random_choice (map fst (hotspots self)) (k_category d) of
           Inl e \<Rightarrow> Inl e
         | Inr category \<Rightarrow>
             (case map_of (hotspots self) category of
                None \<Rightarrow> Inl KeyError
              | Some hs \<Rightarrow>
                  (case random_choice hs (k_hotspot d) of
                     Inl e \<Rightarrow> Inl e
                   | Inr h \<Rightarrow>
                       (let angle = sampled_angle d;
                            r = uniform_double 0 (fl (radius h)) (u_radius d);
                            lat_offset = fl (r * libm_cos angle);
                            lon_offset = fl (r * libm_sin angle)
                        in Inr (fl (fl (fst (center h)) + lat_offset),
                                fl (fl (snd (center h)) + lon_offset))))))
      else
        Inr (uniform_double (fl (fst (lat_range self))) (fl (snd (lat_range self))) (u_lat d),
             uniform_double (fl (fst (lon_range self))) (fl (snd (lon_range self))) (u_lon d)))"

text \<open>The centre and the radius of a hotspot as the doubles that the table holds, and the
  amount by which rounding can carry a sample beyond the radius.\<close>

definition center_double :: "hotspot \<Rightarrow> coord" where
  "center_double h = (fl (fst (center h)), fl (snd (center h)))"

definition rounding_allowance :: "hotspot \<Rightarrow> real" where
  "rounding_allowance h =
     fl (radius h) / 2 ^ 49
     + (\<bar>fl (fst (center h))\<bar> + \<bar>fl (snd (center h))\<bar>) / 2 ^ 53
     + pow2 (- 1072)"

text \<open>Inputs of a magnitude at which no operation of the sampler overflows.\<close>

definition finite_inputs :: "CityGrid \<Rightarrow> loc_draw \<Rightarrow> bool" where
  "finite_inputs self d =
     (\<bar>fst (lat_range self)\<bar> \<le> 2 ^ 1000 \<and> \<bar>snd (lat_range self)\<bar> \<le> 2 ^ 1000
      \<and> \<bar>fst (lon_range self)\<bar> \<le> 2 ^ 1000 \<and> \<bar>snd (lon_range self)\<bar> \<le> 2 ^ 1000
      \<and> \<bar>fst (center (chosen_hotspot self d))\<bar> \<le> 2 ^ 1000
      \<and> \<bar>snd (center (chosen_hotspot self d))\<bar> \<le> 2 ^ 1000
      \<and> radius (chosen_hotspot self d) \<le> 2 ^ 1000)"

subsection \<open>The name geodesic\<close>

text \<open>
  Both remaining methods measure distances with \<open>geodesic(p, q).kilometers\<close>. The module
  imports \<open>numpy\<close>, \<open>random\<close> and \<open>math\<close> and nothing else, and no statement of it
  defines or assigns the name \<open>geodesic\<close>; no other module of the repository supplies it.
  Evaluating the name therefore raises \<open>NameError\<close>, whatever the arguments.
\<close>

definition geodesic :: "coord \<Rightarrow> coord \<Rightarrow> error + real" where
  "geodesic p q = Inl NameError"

subsection \<open>get\_hotspot\_demand\_factor\<close>

text \<open>The argument \<open>time_of_day\<close> is used through its field \<open>hour\<close> only, which the model
  takes directly. \<open>category_adjust\<close> is the chain of branches on the category and the hour,
  \<open>hotspot_step\<close> the body of the inner loop, \<open>hotspots_loop\<close> the inner loop and
  \<open>categories_loop\<close> the outer loop; an exception leaves both loops.\<close>

definition category_adjust :: "string \<Rightarrow> int \<Rightarrow> real \<Rightarrow> real" where
  "category_adjust category hour demand_factor =
     (if category = ''business_districts'' then
        (if 7 \<le> hour \<and> hour < 10 then demand_factor + 2.0
         else if 16 \<le> hour \<and> hour < 19 then demand_factor + 2.5
         else if 12 \<le> hour \<and> hour < 14 then demand_factor + 1.5
         else if 22 \<le> hour \<or> hour < 5 then demand_factor + 0.2
         else demand_factor)
      else if category = ''residential_areas'' then
        (if 6 \<le> hour \<and> hour < 9 then demand_factor + 1.8
         else if 17 \<le> hour \<and> hour < 20 then demand_factor + 1.2
         else demand_factor)
      else if category = ''entertainment_zones'' then
        (if 18 \<le> hour \<and> hour < 22 then demand_factor + 2.0
         else if 22 \<le> hour \<or> hour < 3 then demand_factor + 3.0
         else demand_factor)
      else if category = ''airports'' then
        (let demand_factor = demand_factor + 1.0 in
         if (7 \<le> hour \<and> hour < 10) \<or> (16 \<le> hour \<and> hour < 20) then demand_factor + 0.5
         else demand_factor)
      else demand_factor)"

definition hotspot_step :: "coord \<Rightarrow> int \<Rightarrow> string \<Rightarrow> real \<Rightarrow> hotspot \<Rightarrow> error + real" where
  "hotspot_step location hour category demand_factor h =
     (case geodesic location (center h) of
        Inl e \<Rightarrow> Inl e
      | Inr dist_km \<Rightarrow>
          if dist_km \<le> radius h * 111 then Inr (category_adjust category hour demand_factor)
          else Inr demand_factor)"

fun hotspots_loop :: "coord \<Rightarrow> int \<Rightarrow> string \<Rightarrow> real \<Rightarrow> hotspot list \<Rightarrow> error + real" where
  "hotspots_loop location hour category demand_factor [] = Inr demand_factor"
| "hotspots_loop location hour category demand_factor (h # hs) =
     (case hotspot_step location hour category demand_factor h of
        Inl e \<Rightarrow> Inl e
      | Inr demand_factor' \<Rightarrow> hotspots_loop location hour category demand_factor' hs)"

fun categories_loop ::
  "coord \<Rightarrow> int \<Rightarrow> real \<Rightarrow> (string \<times> hotspot list) list \<Rightarrow> error + real" where
  "categories_loop location hour demand_factor [] = Inr demand_factor"
| "categories_loop location hour demand_factor (item # items) =
     (case hotspots_loop location hour (fst item) demand_factor (snd item) of
        Inl e \<Rightarrow> Inl e
      | Inr demand_factor' \<Rightarrow> categories_loop location hour demand_factor' items)"

definition get_hotspot_demand_factor :: "CityGrid \<Rightarrow> coord \<Rightarrow> int \<Rightarrow> error + real" where
  "get_hotspot_demand_factor self location hour =
     (case categories_loop location hour 1.0 (hotspots self) of
        Inl e \<Rightarrow> Inl e
      | Inr demand_factor \<Rightarrow> Inr (max 0.1 demand_factor))"

text \<open>
  The increment of a category at an hour as the table of section 4.1 of the specification
  words it, each row adding its increment when the hour lies in its window.
\<close>

definition spec_increment :: "string \<Rightarrow> int \<Rightarrow> real" where
  "spec_increment category hour =
     (if category = ''business_districts'' then
        (if hour \<in> {7..9} then 2.0 else 0) + (if hour \<in> {16..18} then 2.5 else 0)
        + (if hour \<in> {12..13} then 1.5 else 0)
        + (if hour \<in> {22..23} \<or> hour \<in> {0..4} then 0.2 else 0)
      else if category = ''residential_areas'' then
        (if hour \<in> {6..8} then 1.8 else 0) + (if hour \<in> {17..19} then 1.2 else 0)
      else if category = ''entertainment_zones'' then
        (if hour \<in> {18..21} then 2.0 else 0)
        + (if hour \<in> {22..23} \<or> hour \<in> {0..2} then 3.0 else 0)
      else if category = ''airports'' then
        1.0 + (if hour \<in> {7..9} \<or> hour \<in> {16..19} then 0.5 else 0)
      else 0)"

subsection \<open>calculate\_trip\_details\<close>

record trip_details =
  distance :: real
  duration :: int
  fare :: real

record trip_draw =
  u_speed :: real
  u_delay :: real

text \<open>The first statement of the method evaluates \<open>geodesic\<close>; the statements after it
  are reached only with a distance in hand, and compute in doubles.\<close>

definition calculate_trip_details :: "coord \<Rightarrow> coord \<Rightarrow> trip_draw \<Rightarrow> error + trip_details" where
  "calculate_trip_details pickup destination d =
     (case geodesic pickup destination of
        Inl e \<Rightarrow> Inl e
      | Inr distance_km \<Rightarrow>
          (let avg_speed = uniform_double 15 35 (u_speed d) in
           if avg_speed = 0 then Inl ZeroDivisionError
           else
             (let duration_minutes = fl (fl (distance_km / avg_speed) * 60);
                  duration_minutes = fl (duration_minutes + uniform_double 0 10 (u_delay d));
                  base_fare = 2.50;
                  per_km_rate = 1.75;
                  per_minute_rate = fl 0.35;
                  fare = fl (fl (base_fare + fl (distance_km * per_km_rate))
                             + fl (duration_minutes * per_minute_rate))
              in Inr \<lparr> distance = fl (py_round_ndigits distance_km 2),
                       duration = py_round duration_minutes,
                       fare = fl (py_round_ndigits fare 2) \<rparr>)))"

section \<open>ride\_hailing\_generator.py\<close>

text \<open>
  The configuration dictionary, the entity dictionaries and the emitted request dictionary
  are records; a location stored as \<open>{'latitude': x, 'longitude': y}\<close> is the pair
  \<open>(x, y)\<close>. A field whose key occurs in two kinds of dictionary carries a suffix in the
  later record (\<open>name_user\<close>, \<open>user_id_rq\<close>, \<open>status_rq\<close>, \<open>vehicle_type_rq\<close>).
  The clock \<open>current_time\<close> is a datetime with its microseconds set to zero; the model
  keeps its POSIX timestamp, a whole number of seconds.
\<close>

record gen_config =
  num_drivers :: int
  num_users :: int
  base_request_rate :: real

record vehicle_info =
  vehicle_id :: string
  vehicle_type :: string
  capacity :: int

record driver =
  driver_id :: string
  current_location :: coord
  status :: string
  vehicle_info :: vehicle_info
  current_ride_id :: "string option"
  last_update :: int
  battery_level :: real

record user =
  user_id :: string
  name_user :: string
  home_location :: coord
  work_location :: coord
  preferred_vehicle_type :: string
  cancellation_probability :: real
  last_activity :: int

record ride_request =
  request_id :: string
  user_id_rq :: string
  timestamp :: int
  pickup_location :: coord
  destination :: coord
  status_rq :: string
  vehicle_type_rq :: string
  estimated_fare :: real
  estimated_duration :: int
  estimated_distance :: real
  passenger_count :: int

record RideHailingDataGenerator =
  config :: gen_config
  city_grid :: CityGrid
  current_time :: int
  vehicle_types :: "(string \<times> int) list"
  drivers :: "(string \<times> driver) list"
  users :: "(string \<times> user) list"
  active_rides :: "(string \<times> string) list"

text \<open>The draws of one loop iteration of each method. \<open>uuid_...\<close> is the text of
  \<open>str(uuid.uuid4())\<close>, \<open>faker_name\<close> the result of \<open>faker.name()\<close>.\<close>

record driver_draw =
  uuid_driver :: string
  loc_driver :: loc_draw
  k_vehicle_type :: nat
  u_status :: real
  uuid_vehicle :: string
  u_battery :: real

record user_draw =
  uuid_user :: string
  loc_home :: loc_draw
  loc_work :: loc_draw
  u_preferred :: real
  faker_name :: string
  u_cancellation :: real

record request_draw =
  k_user :: nat
  uuid_request :: string
  k_jitter :: nat
  u_fare :: real
  k_duration :: nat
  u_distance :: real
  k_passengers :: nat

text \<open>\<open>range(n)\<close> has \<open>n\<close> elements for a positive \<open>n\<close> and none otherwise.\<close>

definition range_len :: "int \<Rightarrow> nat" where
  "range_len n = (if n \<le> 0 then 0 else nat n)"

text \<open>\<open>random.gauss(mu, sigma)\<close> is \<open>mu + z * sigma\<close> for a standard normal draw \<open>z\<close>.\<close>

definition gauss :: "real \<Rightarrow> real \<Rightarrow> real \<Rightarrow> real" where
  "gauss mu sigma z = mu + z * sigma"

subsection \<open>\_initialize\_drivers\<close>

definition new_driver :: "RideHailingDataGenerator \<Rightarrow> driver_draw \<Rightarrow> error + driver" where
  "new_driver self d =
     (let driver_id = ''D-'' @ take 8 (uuid_driver d) in
      case get_random_location (city_grid self) 0.8 (loc_driver d) of
        Inl e \<Rightarrow> Inl e
      | Inr location \<Rightarrow>
          (case random_choice (map fst (vehicle_types self)) (k_vehicle_type d) of
             Inl e \<Rightarrow> Inl e
           | Inr vtype \<Rightarrow>
               (case random_choices [''AVAILABLE'', ''BUSY'', ''OFFLINE''] [0.6, 0.3, 0.1]
                       (u_status d) of
                  Inl e \<Rightarrow> Inl e
                | Inr stat \<Rightarrow>
                    (case map_of (vehicle_types self) vtype of
                       None \<Rightarrow> Inl KeyError
                     | Some cap \<Rightarrow>
                         Inr \<lparr> driver_id = driver_id,
                               current_location = location,
                               status = stat,
                               vehicle_info =
                                 \<lparr> vehicle_id = ''V-'' @ take 8 (uuid_vehicle d),
                                   vehicle_type = vtype,
                                   capacity = cap \<rparr>,
                               current_ride_id = None,
                               last_update = current_time self,
                               battery_level = uniform 0.3 1.0 (u_battery d) \<rparr>))))"

fun initialize_drivers_loop ::
  "RideHailingDataGenerator \<Rightarrow> (nat \<Rightarrow> driver_draw) \<Rightarrow> nat \<Rightarrow> nat
     \<Rightarrow> (string \<times> driver) list \<Rightarrow> error + (string \<times> driver) list" where
  "initialize_drivers_loop self ds i 0 drvs = Inr drvs"
| "initialize_drivers_loop self ds i (Suc n) drvs =
     (case new_driver self (ds i) of
        Inl e \<Rightarrow> Inl e
      | Inr drv \<Rightarrow>
          initialize_drivers_loop self ds (Suc i) n (AList.update (driver_id drv) drv drvs))"

definition initialize_drivers ::
  "RideHailingDataGenerator \<Rightarrow> int \<Rightarrow> (nat \<Rightarrow> driver_draw)
     \<Rightarrow> error + (string \<times> driver) list" where
  "initialize_drivers self n_drivers ds =
     initialize_drivers_loop self ds 0 (range_len n_drivers) []"

subsection \<open>\_initialize\_users\<close>

definition new_user :: "RideHailingDataGenerator \<Rightarrow> user_draw \<Rightarrow> error + user" where
  "new_user self d =
     (let user_id = ''U-'' @ take 8 (uuid_user d) in
      case get_random_location (city_grid self) 0.9 (loc_home d) of
        Inl e \<Rightarrow> Inl e
      | Inr home \<Rightarrow>
          (case get_random_location (city_grid self) 0.9 (loc_work d) of
             Inl e \<Rightarrow> Inl e
           | Inr work \<Rightarrow>
               (case random_choices (map fst (vehicle_types self)) [0.5, 0.25, 0.15, 0.07, 0.03]
                       (u_preferred d) of
                  Inl e \<Rightarrow> Inl e
                | Inr preferred \<Rightarrow>
                    Inr \<lparr> user_id = user_id,
                          name_user = faker_name d,
                          home_location = home,
                          work_location = work,
                          preferred_vehicle_type = preferred,
                          cancellation_probability = uniform 0.02 0.08 (u_cancellation d),
                          last_activity = current_time self \<rparr>)))"

fun initialize_users_loop ::
  "RideHailingDataGenerator \<Rightarrow> (nat \<Rightarrow> user_draw) \<Rightarrow> nat \<Rightarrow> nat
     \<Rightarrow> (string \<times> user) list \<Rightarrow> error + (string \<times> user) list" where
  "initialize_users_loop self ds i 0 usrs = Inr usrs"
| "initialize_users_loop self ds i (Suc n) usrs =
     (case new_user self (ds i) of
        Inl e \<Rightarrow> Inl e
      | Inr usr \<Rightarrow>
          initialize_users_loop self ds (Suc i) n (AList.update (user_id usr) usr usrs))"

definition initialize_users ::
  "RideHailingDataGenerator \<Rightarrow> int \<Rightarrow> (nat \<Rightarrow> user_draw)
     \<Rightarrow> error + (string \<times> user) list" where
  "initialize_users self n_users ds =
     initialize_users_loop self ds 0 (range_len n_users) []"

subsection \<open>\_\_init\_\_\<close>

text \<open>\<open>now\<close> is the wall-clock time of construction in whole seconds. The fields assigned
  after the two pools are built are empty while the pools are built.\<close>

definition RideHailingDataGenerator_init ::
  "gen_config \<Rightarrow> int \<Rightarrow> (nat \<Rightarrow> driver_draw) \<Rightarrow> (nat \<Rightarrow> user_draw)
     \<Rightarrow> error + RideHailingDataGenerator" where
  "RideHailingDataGenerator_init cfg now dds uds =
     (let self = \<lparr> config = cfg,
                    city_grid = CityGrid_default,
                    current_time = now,
                    vehicle_types =
                      [(''Economy'', 4), (''Comfort'', 4), (''Premium'', 4), (''SUV'', 6),
                       (''Van'', 8)],
                    drivers = [],
                    users = [],
                    active_rides = [] \<rparr>
      in case initialize_drivers self (num_drivers cfg) dds of
           Inl e \<Rightarrow> Inl e
         | Inr drvs \<Rightarrow>
             (case initialize_users (self\<lparr>drivers := drvs\<rparr>) (num_users cfg) uds of
                Inl e \<Rightarrow> Inl e
              | Inr usrs \<Rightarrow> Inr (self\<lparr>drivers := drvs, users := usrs\<rparr>)))"

subsection \<open>generate\_ride\_requests\<close>

definition new_request :: "RideHailingDataGenerator \<Rightarrow> request_draw \<Rightarrow> error + ride_request" where
  "new_request self d =
     (case random_choice (map snd (users self)) (k_user d) of
        Inl e \<Rightarrow> Inl e
      | Inr usr \<Rightarrow>
          Inr \<lparr> request_id = ''R-'' @ take 8 (uuid_request d),
                user_id_rq = user_id usr,
                timestamp = current_time self + randint 0 4 (k_jitter d),
                pickup_location = home_location usr,
                destination = work_location usr,
                status_rq = ''REQUESTED'',
                vehicle_type_rq = preferred_vehicle_type usr,
                estimated_fare = py_round_ndigits (uniform 5.0 50.0 (u_fare d)) 2,
                estimated_duration = randint 5 45 (k_duration d),
                estimated_distance = py_round_ndigits (uniform 1.0 20.0 (u_distance d)) 2,
                passenger_count = randint 1 4 (k_passengers d) \<rparr>)"

fun requests_loop ::
  "RideHailingDataGenerator \<Rightarrow> (nat \<Rightarrow> request_draw) \<Rightarrow> nat \<Rightarrow> nat
     \<Rightarrow> ride_request list \<Rightarrow> error + ride_request list" where
  "requests_loop self ds i 0 ride_requests = Inr ride_requests"
| "requests_loop self ds i (Suc n) ride_requests =
     (case new_request self (ds i) of
        Inl e \<Rightarrow> Inl e
      | Inr r \<Rightarrow> requests_loop self ds (Suc i) n (ride_requests @ [r]))"

text \<open>The method returns the batch, or raises, and leaves the generator in the second
  component. \<open>z\<close> is the standard normal draw of \<open>random.gauss\<close>, \<open>ds i\<close> the draws of the
  \<open>i\<close>-th loop iteration. An exception leaves the loop before the clock is advanced.\<close>

definition generate_ride_requests ::
  "RideHailingDataGenerator \<Rightarrow> real \<Rightarrow> (nat \<Rightarrow> request_draw)
     \<Rightarrow> (error + ride_request list) \<times> RideHailingDataGenerator" where
  "generate_ride_requests self z ds =
     (let num_requests = max 1 (py_int (gauss (base_request_rate (config self)) 1 z)) in
      case requests_loop self ds 0 (range_len num_requests) [] of
        Inl e \<Rightarrow> (Inl e, self)
      | Inr ride_requests \<Rightarrow>
          (Inr ride_requests, self\<lparr>current_time := current_time self + 5\<rparr>))"

text \<open>Successive ticks, as the publishing loop of \<open>eventhub_producer.py\<close> makes them; an
  exception ends the run.\<close>

fun run_ticks ::
  "RideHailingDataGenerator \<Rightarrow> (real \<times> (nat \<Rightarrow> request_draw)) list
     \<Rightarrow> error + RideHailingDataGenerator" where
  "run_ticks self [] = Inr self"
| "run_ticks self (t # ts) =
     (case generate_ride_requests self (fst t) (snd t) of
        (Inl e, self') \<Rightarrow> Inl e
      | (Inr ride_requests, self') \<Rightarrow> run_ticks self' ts)"

text \<open>The number of requests of a method result; none when the call raised.\<close>

definition batch_size :: "(error + ride_request list) \<times> RideHailingDataGenerator \<Rightarrow> nat option" where
  "batch_size res = (case fst res of Inl e \<Rightarrow> None | Inr ride_requests \<Rightarrow> Some (length ride_requests))"

text \<open>The invariant of the user dictionary that \<open>_initialize_users\<close> establishes: keys are
  unique and every entry is stored under its own \<open>user_id\<close>.\<close>

definition users_wf :: "(string \<times> user) list \<Rightarrow> bool" where
  "users_wf us = (distinct (map fst us) \<and> list_all (\<lambda>kv. user_id (snd kv) = fst kv) us)"

text \<open>Draws that the random module can return for the default city grid: indices below the
  length of the sequence chosen from.\<close>

definition loc_draw_ok :: "CityGrid \<Rightarrow> loc_draw \<Rightarrow> bool" where
  "loc_draw_ok grid d =
     (k_category d < length (hotspots grid)
      \<and> k_hotspot d < length (snd (hotspots grid ! k_category d)))"

definition driver_draw_ok :: "driver_draw \<Rightarrow> bool" where
  "driver_draw_ok d = (loc_draw_ok CityGrid_default (loc_driver d) \<and> k_vehicle_type d < 5)"

definition user_draw_ok :: "user_draw \<Rightarrow> bool" where
  "user_draw_ok d =
     (loc_draw_ok CityGrid_default (loc_home d) \<and> loc_draw_ok CityGrid_default (loc_work d))"

section \<open>Concrete inputs\<close>

definition sample_loc_draw :: loc_draw where
  "sample_loc_draw =
     \<lparr> u_bias = 1 / 2, k_category = 3, k_hotspot = 1, u_angle = 0, u_radius = 1 / 2,
       u_lat = 1 / 3, u_lon = 2 / 3 \<rparr>"

text \<open>Draws at the edge of Midtown: angle draw 0 and the largest radius draw that
  \<open>random.random()\<close> returns.\<close>

definition edge_loc_draw :: loc_draw where
  "edge_loc_draw =
     \<lparr> u_bias = 0, k_category = 0, k_hotspot = 0, u_angle = 0, u_radius = 1 - 1 / 2 ^ 53,
       u_lat = 1 / 4, u_lon = 3 / 4 \<rparr>"

definition sample_driver_draws :: "nat \<Rightarrow> driver_draw" where
  "sample_driver_draws i =
     \<lparr> uuid_driver = ''0f8fad5b-d9cb-469f-a165-70867728950e'',
       loc_driver = sample_loc_draw,
       k_vehicle_type = 3,
       u_status = 7 / 10,
       uuid_vehicle = ''7c9e6679-7425-40de-944b-e07fc1f90ae7'',
       u_battery = 1 / 2 \<rparr>"

definition sample_user_draws :: "nat \<Rightarrow> user_draw" where
  "sample_user_draws i =
     \<lparr> uuid_user = ''3d6f4e2a-91b7-4c1d-8e5f-2a7b9c0d1e3f'',
       loc_home = sample_loc_draw,
       loc_work = sample_loc_draw\<lparr>k_category := 0, k_hotspot := 0\<rparr>,
       u_preferred = 3 / 5,
       faker_name = ''Ada Byron'',
       u_cancellation = 1 / 2 \<rparr>"

definition sample_request_draws :: "nat \<Rightarrow> request_draw" where
  "sample_request_draws i =
     \<lparr> k_user = 0,
       uuid_request = ''a1b2c3d4-0000-4000-8000-000000000000'',
       k_jitter = 3,
       u_fare = 1 / 2,
       k_duration = 10,
       u_distance = 1 / 2,
       k_passengers = 1 \<rparr>"

definition sample_user :: user where
  "sample_user =
     \<lparr> user_id = ''U-3d6f4e2a'',
       name_user = ''Ada Byron'',
       home_location = (40.78, -73.87),
       work_location = (40.76, -73.98),
       preferred_vehicle_type = ''Comfort'',
       cancellation_probability = 0.05,
       last_activity = 1700000000 \<rparr>"

text \<open>A generator as \<open>__init__\<close> leaves it for one user and no driver, and the same
  generator with an empty user pool.\<close>

definition sample_generator :: RideHailingDataGenerator where
  "sample_generator =
     \<lparr> config = \<lparr> num_drivers = 0, num_users = 1, base_request_rate = 5 \<rparr>,
       city_grid = CityGrid_default,
       current_time = 1700000000,
       vehicle_types =
         [(''Economy'', 4), (''Comfort'', 4), (''Premium'', 4), (''SUV'', 6), (''Van'', 8)],
       drivers = [],
       users = [(''U-3d6f4e2a'', sample_user)],
       active_rides = [] \<rparr>"

definition empty_pool_generator :: RideHailingDataGenerator where
  "empty_pool_generator = sample_generator\<lparr>config := \<lparr> num_drivers = 0, num_users = 0, base_request_rate = 5 \<rparr>, users := []\<rparr>"

definition negative_config :: gen_config where
  "negative_config = \<lparr> num_drivers = - 1, num_users = - 3, base_request_rate = 5 \<rparr>"

text \<open>The request that \<open>sample_generator\<close> emits from \<open>sample_request_draws\<close>.\<close>

definition sample_request :: ride_request where
  "sample_request =
     \<lparr> request_id = ''R-a1b2c3d4'',
       user_id_rq = ''U-3d6f4e2a'',
       timestamp = 1700000003,
       pickup_location = (40.78, -73.87),
       destination = (40.76, -73.98),
       status_rq = ''REQUESTED'',
       vehicle_type_rq = ''Comfort'',
       estimated_fare = 27.5,
       estimated_duration = 15,
       estimated_distance = 10.5,
       passenger_count = 2 \<rparr>"

section \<open>Auxiliary facts\<close>

subsection \<open>Primitives\<close>

lemma random_choice_nth: "k < length seq \<Longrightarrow> random_choice seq k = Inr (seq ! k)"
  by (auto simp: random_choice_def)

lemma map_of_nth_distinct:
  assumes "distinct (map fst al)" "k < length al"
  shows "map_of al (fst (al ! k)) = Some (snd (al ! k))"
  using assms by (simp add: map_of_eq_Some_iff)

lemma py_round_err: "\<bar>of_int (py_round x) - x\<bar> \<le> 1 / 2"
  unfolding py_round_def Let_def by (auto; linarith)

lemma range_len_max_pos: "\<exists>m. range_len (max 1 x) = Suc m"
proof -
  have "0 < range_len (max 1 x)" by (simp add: range_len_def max_def)
  then show ?thesis by (auto simp: gr0_conv_Suc)
qed

lemma range_len_max: "int (range_len (max 1 x)) = max 1 x"
  by (simp add: range_len_def max_def)

lemma range_len_neg: "n < 0 \<Longrightarrow> range_len n = 0"
  by (simp add: range_len_def)

lemma random_choices_total:
  assumes "length population = length weights" "weights \<noteq> []" "0 < last (accumulate 0 weights)"
  shows "\<exists>x. random_choices population weights u = Inr x"
proof -
  have len: "length (accumulate a ws) = length ws" for a ws
    by (induction ws arbitrary: a) simp_all
  have "accumulate 0 weights \<noteq> []" using assms(2) len [of 0 weights] by auto
  then show ?thesis using assms len [of 0 weights]
    by (simp add: random_choices_def Let_def)
qed

subsection \<open>Rounding to an integer\<close>

lemma py_round_of_int: "py_round (of_int n) = n"
  by (simp add: py_round_def)

lemma py_round_mono:
  assumes "x \<le> y"
  shows "py_round x \<le> py_round y"
proof (cases "\<lfloor>x\<rfloor> = \<lfloor>y\<rfloor>")
  case True
  then show ?thesis using assms unfolding py_round_def Let_def by auto
next
  case False
  then have lt: "\<lfloor>x\<rfloor> < \<lfloor>y\<rfloor>" using assms floor_mono [OF assms] by linarith
  have "py_round x \<le> \<lfloor>x\<rfloor> + 1" unfolding py_round_def Let_def by auto
  moreover have "\<lfloor>y\<rfloor> \<le> py_round y" unfolding py_round_def Let_def by auto
  ultimately show ?thesis using lt by linarith
qed

lemma py_round_ge: "of_int n \<le> x \<Longrightarrow> n \<le> py_round x"
  using py_round_mono [of "of_int n" x] by (simp add: py_round_of_int)

lemma py_round_le: "x \<le> of_int n \<Longrightarrow> py_round x \<le> n"
  using py_round_mono [of x "of_int n"] by (simp add: py_round_of_int)

lemma py_round_below_half:
  assumes "x < of_int n - 1 / 2"
  shows "py_round x \<le> n - 1"
proof -
  have "of_int (py_round x) - x \<le> 1 / 2" using py_round_err [of x] by linarith
  then have "real_of_int (py_round x) < of_int n" using assms by linarith
  then show ?thesis by linarith
qed

lemma py_round_minus: "py_round (- x) = - py_round x"
proof (cases "x = of_int \<lfloor>x\<rfloor>")
  case True
  then obtain n where "x = of_int n" by blast
  then show ?thesis using py_round_of_int [of "- n"] by (simp add: py_round_of_int)
next
  case False
  from False have c: "\<lceil>x\<rceil> = \<lfloor>x\<rfloor> + 1" by (simp add: ceiling_altdef)
  have f: "\<lfloor>- x\<rfloor> = - \<lfloor>x\<rfloor> - 1" using c by (simp add: floor_minus)
  have ev: "even (- \<lfloor>x\<rfloor> - 1) \<longleftrightarrow> odd \<lfloor>x\<rfloor>" by simp
  have lt: "of_int \<lfloor>x\<rfloor> < x" using False of_int_floor_le [of x] by linarith
  show ?thesis unfolding py_round_def Let_def f using lt by auto
qed


lemma pow2_powr: "pow2 e = 2 powr (of_int e)"
proof (cases "0 \<le> e")
  case True
  then have "2 powr (of_int e) = (2::real) powr (real (nat e))" by simp
  also have "\<dots> = 2 ^ nat e" by (rule powr_realpow) simp
  finally show ?thesis using True by (simp add: pow2_def)
next
  case False
  then have "2 powr (of_int e) = (2::real) powr (- real (nat (- e)))" by simp
  also have "\<dots> = 1 / 2 powr (real (nat (- e)))" by (simp add: powr_minus divide_inverse)
  also have "2 powr (real (nat (- e))) = (2::real) ^ nat (- e)" by (rule powr_realpow) simp
  finally show ?thesis using False by (simp add: pow2_def)
qed

lemma pow2_pos: "0 < pow2 e"
  by (simp add: pow2_powr)

lemma pow2_add: "pow2 (a + b) = pow2 a * pow2 b"
  by (simp add: pow2_powr powr_add)

lemma pow2_mono: "a \<le> b \<Longrightarrow> pow2 a \<le> pow2 b"
  by (simp add: pow2_powr)

lemma pow2_52: "pow2 (k - 52) * 2 ^ 52 = pow2 k"
proof -
  have "pow2 k = pow2 ((k - 52) + 52)" by (rule arg_cong [where f = pow2]) simp
  also have "\<dots> = pow2 (k - 52) * pow2 52" by (rule pow2_add)
  finally show ?thesis by (simp add: pow2_def)
qed

lemma pow2_53: "pow2 (k - 52) * 2 ^ 53 = pow2 (k + 1)"
proof -
  have "pow2 (k + 1) = pow2 ((k - 52) + 53)" by (rule arg_cong [where f = pow2]) simp
  also have "\<dots> = pow2 (k - 52) * pow2 53" by (rule pow2_add)
  finally show ?thesis by (simp add: pow2_def)
qed

subsection \<open>Binary64 rounding\<close>

text \<open>The binade of a value: the exponent clipped at the least normal exponent.\<close>

lemma floor_log2_bounds:
  assumes "x \<noteq> 0"
  shows "pow2 \<lfloor>log 2 \<bar>x\<bar>\<rfloor> \<le> \<bar>x\<bar>" "\<bar>x\<bar> < pow2 (\<lfloor>log 2 \<bar>x\<bar>\<rfloor> + 1)"
proof -
  have pos: "0 < \<bar>x\<bar>" using assms by simp
  have a: "real_of_int \<lfloor>log 2 \<bar>x\<bar>\<rfloor> \<le> log 2 \<bar>x\<bar>" by (rule of_int_floor_le)
  have "2 powr (real_of_int \<lfloor>log 2 \<bar>x\<bar>\<rfloor>) \<le> \<bar>x\<bar>"
    using a pos le_log_iff [of 2 "\<bar>x\<bar>" "real_of_int \<lfloor>log 2 \<bar>x\<bar>\<rfloor>"] by linarith
  then show "pow2 \<lfloor>log 2 \<bar>x\<bar>\<rfloor> \<le> \<bar>x\<bar>" by (simp only: pow2_powr)
  have b: "log 2 \<bar>x\<bar> < real_of_int (\<lfloor>log 2 \<bar>x\<bar>\<rfloor> + 1)" by linarith
  have "\<bar>x\<bar> < 2 powr (real_of_int (\<lfloor>log 2 \<bar>x\<bar>\<rfloor> + 1))"
    using b pos log_less_iff [of 2 "\<bar>x\<bar>" "real_of_int (\<lfloor>log 2 \<bar>x\<bar>\<rfloor> + 1)"] by linarith
  then show "\<bar>x\<bar> < pow2 (\<lfloor>log 2 \<bar>x\<bar>\<rfloor> + 1)" by (simp only: pow2_powr)
qed

lemma floor_log2_unique:
  assumes "pow2 k \<le> \<bar>x\<bar>" "\<bar>x\<bar> < pow2 (k + 1)"
  shows "\<lfloor>log 2 \<bar>x\<bar>\<rfloor> = k"
proof -
  have pos: "0 < \<bar>x\<bar>" using assms(1) pow2_pos [of k] by linarith
  have "real_of_int k \<le> log 2 \<bar>x\<bar>"
    using assms(1) pos le_log_iff [of 2 "\<bar>x\<bar>" "real_of_int k"] unfolding pow2_powr by linarith
  moreover have "log 2 \<bar>x\<bar> < real_of_int (k + 1)"
    using assms(2) pos log_less_iff [of 2 "\<bar>x\<bar>" "real_of_int (k + 1)"] unfolding pow2_powr
    by linarith
  ultimately show ?thesis by linarith
qed

lemma ulp_exp_cases:
  assumes "x \<noteq> 0"
  obtains k where "ulp_exp x = k - 52" "- 1022 \<le> k" "\<bar>x\<bar> < pow2 (k + 1)"
    "pow2 k \<le> \<bar>x\<bar> \<or> k = - 1022"
proof -
  let ?e = "\<lfloor>log 2 \<bar>x\<bar>\<rfloor>"
  let ?k = "max ?e (- 1022)"
  have 1: "ulp_exp x = ?k - 52" by (simp add: ulp_exp_def)
  have 2: "- 1022 \<le> ?k" by simp
  have "\<bar>x\<bar> < pow2 (?e + 1)" by (rule floor_log2_bounds [OF assms])
  also have "\<dots> \<le> pow2 (?k + 1)" by (rule pow2_mono) simp
  finally have 3: "\<bar>x\<bar> < pow2 (?k + 1)" .
  have 4: "pow2 ?k \<le> \<bar>x\<bar> \<or> ?k = - 1022"
    using floor_log2_bounds(1) [OF assms] by (auto simp: max_def)
  show ?thesis using that [OF 1 2 3 4] .
qed

lemma ulp_exp_eq:
  assumes "- 1022 \<le> k" "\<bar>x\<bar> < pow2 (k + 1)" "pow2 k \<le> \<bar>x\<bar> \<or> k = - 1022" "x \<noteq> 0"
  shows "ulp_exp x = k - 52"
proof (cases "pow2 k \<le> \<bar>x\<bar>")
  case True
  then have "\<lfloor>log 2 \<bar>x\<bar>\<rfloor> = k" using assms(2) by (rule floor_log2_unique)
  then show ?thesis using assms(1) by (simp add: ulp_exp_def)
next
  case False
  then have k: "k = - 1022" using assms(3) by blast
  have "pow2 \<lfloor>log 2 \<bar>x\<bar>\<rfloor> \<le> \<bar>x\<bar>" by (rule floor_log2_bounds [OF assms(4)])
  then have "pow2 \<lfloor>log 2 \<bar>x\<bar>\<rfloor> < pow2 (k + 1)" using assms(2) by linarith
  then have "\<lfloor>log 2 \<bar>x\<bar>\<rfloor> < k + 1" by (simp add: pow2_powr)
  then show ?thesis using k by (simp add: ulp_exp_def)
qed

lemma ulp_exp_minus: "ulp_exp (- x) = ulp_exp x"
  by (simp add: ulp_exp_def)

lemma fl_zero: "fl 0 = 0"
  by (simp add: fl_def)

lemma fl_minus: "fl (- x) = - fl x"
  by (simp add: fl_def ulp_exp_minus py_round_minus)

text \<open>Rounding does not cross a point of the grid of the value's own binade.\<close>

lemma fl_le_grid:
  assumes "x \<le> of_int n * pow2 (ulp_exp x)"
  shows "fl x \<le> of_int n * pow2 (ulp_exp x)"
proof (cases "x = 0")
  case True
  then show ?thesis using assms by (simp add: fl_zero)
next
  case False
  have "x / pow2 (ulp_exp x) \<le> of_int n"
    using assms pow2_pos [of "ulp_exp x"] by (simp add: field_simps)
  then have "py_round (x / pow2 (ulp_exp x)) \<le> n" by (rule py_round_le)
  then have "of_int (py_round (x / pow2 (ulp_exp x))) * pow2 (ulp_exp x)
               \<le> of_int n * pow2 (ulp_exp x)"
    using pow2_pos [of "ulp_exp x"] by (simp add: mult_right_mono)
  then show ?thesis using False by (simp add: fl_def)
qed

lemma fl_ge_grid:
  assumes "of_int n * pow2 (ulp_exp x) \<le> x"
  shows "of_int n * pow2 (ulp_exp x) \<le> fl x"
proof -
  have "- x \<le> of_int (- n) * pow2 (ulp_exp (- x))" using assms by (simp add: ulp_exp_minus)
  then have "fl (- x) \<le> of_int (- n) * pow2 (ulp_exp (- x))" by (rule fl_le_grid)
  then show ?thesis by (simp add: fl_minus ulp_exp_minus)
qed

lemma fl_nonneg: "0 \<le> x \<Longrightarrow> 0 \<le> fl x"
  using fl_ge_grid [of 0 x] by simp

lemma fl_nonpos: "x \<le> 0 \<Longrightarrow> fl x \<le> 0"
  using fl_le_grid [of x 0] by simp


text \<open>Rounding stays within the binade of the value.\<close>

lemma fl_binade_upper:
  assumes "ulp_exp x = k - 52" "x < pow2 (k + 1)"
  shows "fl x \<le> pow2 (k + 1)"
proof -
  have "x \<le> of_int (2 ^ 53) * pow2 (ulp_exp x)"
    using assms pow2_53 [of k] by (simp add: mult.commute)
  then have "fl x \<le> of_int (2 ^ 53) * pow2 (ulp_exp x)" by (rule fl_le_grid)
  then show ?thesis using assms(1) pow2_53 [of k] by (simp add: mult.commute)
qed

lemma fl_binade_lower:
  assumes "ulp_exp x = k - 52" "pow2 k \<le> x"
  shows "pow2 k \<le> fl x"
proof -
  have "of_int (2 ^ 52) * pow2 (ulp_exp x) \<le> x"
    using assms pow2_52 [of k] by (simp add: mult.commute)
  then have "of_int (2 ^ 52) * pow2 (ulp_exp x) \<le> fl x" by (rule fl_ge_grid)
  then show ?thesis using assms(1) pow2_52 [of k] by (simp add: mult.commute)
qed

text \<open>The rounding error: half a unit in the last place.\<close>

lemma fl_err_ulp: "\<bar>fl x - x\<bar> \<le> pow2 (ulp_exp x) / 2"
proof (cases "x = 0")
  case True
  then show ?thesis using pow2_pos [of "ulp_exp 0"] by (simp add: fl_zero)
next
  case False
  let ?s = "pow2 (ulp_exp x)"
  have s: "0 < ?s" by (rule pow2_pos)
  have "\<bar>of_int (py_round (x / ?s)) - x / ?s\<bar> \<le> 1 / 2" by (rule py_round_err)
  then have "\<bar>of_int (py_round (x / ?s)) - x / ?s\<bar> * ?s \<le> 1 / 2 * ?s"
    using s by (simp add: mult_right_mono)
  moreover have "\<bar>of_int (py_round (x / ?s)) - x / ?s\<bar> * ?s
                  = \<bar>of_int (py_round (x / ?s)) * ?s - x\<bar>"
  proof -
    have "\<bar>of_int (py_round (x / ?s)) - x / ?s\<bar> * ?s
            = \<bar>(of_int (py_round (x / ?s)) - x / ?s) * ?s\<bar>"
      using s by (simp add: abs_mult)
    also have "(of_int (py_round (x / ?s)) - x / ?s) * ?s = of_int (py_round (x / ?s)) * ?s - x"
      using s by (simp add: field_simps)
    finally show ?thesis .
  qed
  ultimately show ?thesis using False by (simp add: fl_def)
qed

lemma fl_err:
  "\<bar>fl x - x\<bar> \<le> \<bar>x\<bar> / 2 ^ 53 + pow2 (- 1075)"
proof (cases "x = 0")
  case True
  then show ?thesis using pow2_pos [of "- 1075"] by (simp add: fl_zero)
next
  case False
  then obtain k where k: "ulp_exp x = k - 52" "- 1022 \<le> k" "\<bar>x\<bar> < pow2 (k + 1)"
    "pow2 k \<le> \<bar>x\<bar> \<or> k = - 1022"
    by (rule ulp_exp_cases)
  have half: "pow2 (k - 52) / 2 = pow2 k / 2 ^ 53"
    using pow2_52 [of k] by (simp add: field_simps)
  have e: "\<bar>fl x - x\<bar> \<le> pow2 k / 2 ^ 53"
    using fl_err_ulp [of x] k(1) half by simp
  show ?thesis
  proof (cases "pow2 k \<le> \<bar>x\<bar>")
    case True
    then have "pow2 k / 2 ^ 53 \<le> \<bar>x\<bar> / 2 ^ 53" by (simp add: divide_right_mono)
    then show ?thesis using e pow2_pos [of "- 1075"] by linarith
  next
    case False
    then have "k = - 1022" using k(4) by blast
    then have "pow2 k / 2 ^ 53 = pow2 (- 1075)" by (simp add: pow2_def)
    then show ?thesis using e by simp
  qed
qed

text \<open>Rounding is monotone.\<close>

lemma ulp_exp_mono:
  assumes "0 < x" "x \<le> y"
  shows "ulp_exp x \<le> ulp_exp y"
proof -
  have "log 2 \<bar>x\<bar> \<le> log 2 \<bar>y\<bar>" using assms by simp
  then have "\<lfloor>log 2 \<bar>x\<bar>\<rfloor> \<le> \<lfloor>log 2 \<bar>y\<bar>\<rfloor>" by (rule floor_mono)
  then show ?thesis by (simp add: ulp_exp_def)
qed

lemma fl_mono_pos:
  assumes "0 < x" "x \<le> y"
  shows "fl x \<le> fl y"
proof -
  have y: "0 < y" using assms by linarith
  have "x \<noteq> 0" using assms(1) by simp
  then obtain k where k: "ulp_exp x = k - 52" "- 1022 \<le> k" "\<bar>x\<bar> < pow2 (k + 1)"
    "pow2 k \<le> \<bar>x\<bar> \<or> k = - 1022"
    by (rule ulp_exp_cases)
  have "y \<noteq> 0" using y by simp
  then obtain j where j: "ulp_exp y = j - 52" "- 1022 \<le> j" "\<bar>y\<bar> < pow2 (j + 1)"
    "pow2 j \<le> \<bar>y\<bar> \<or> j = - 1022"
    by (rule ulp_exp_cases)
  have kj: "k \<le> j" using ulp_exp_mono [OF assms] k(1) j(1) by simp
  show ?thesis
  proof (cases "k = j")
    case True
    then have same: "ulp_exp x = ulp_exp y" using k(1) j(1) by simp
    have "x / pow2 (ulp_exp y) \<le> y / pow2 (ulp_exp y)"
      using assms(2) pow2_pos [of "ulp_exp y"] by (simp add: divide_right_mono)
    then have "py_round (x / pow2 (ulp_exp y)) \<le> py_round (y / pow2 (ulp_exp y))"
      by (rule py_round_mono)
    then have "of_int (py_round (x / pow2 (ulp_exp y))) * pow2 (ulp_exp y)
                 \<le> of_int (py_round (y / pow2 (ulp_exp y))) * pow2 (ulp_exp y)"
      using pow2_pos [of "ulp_exp y"] by (simp add: mult_right_mono)
    then show ?thesis using assms(1) y same by (simp add: fl_def)
  next
    case False
    then have lt: "k + 1 \<le> j" using kj by simp
    then have "j \<noteq> - 1022" using k(2) by simp
    then have "pow2 j \<le> y" using j(4) y by simp
    then have low: "pow2 j \<le> fl y" using j(1) by (rule fl_binade_lower [rotated])
    have "x < pow2 (k + 1)" using k(3) assms(1) by simp
    then have "fl x \<le> pow2 (k + 1)" using k(1) by (rule fl_binade_upper [rotated])
    also have "\<dots> \<le> pow2 j" using lt by (rule pow2_mono)
    finally show ?thesis using low by linarith
  qed
qed

lemma fl_mono:
  assumes "x \<le> y"
  shows "fl x \<le> fl y"
proof -
  consider "0 < x" | "x \<le> 0" "0 \<le> y" | "y < 0" using assms by linarith
  then show ?thesis
  proof cases
    case 1
    then show ?thesis using assms by (rule fl_mono_pos)
  next
    case 2
    then show ?thesis using fl_nonpos [of x] fl_nonneg [of y] by linarith
  next
    case 3
    then have "0 < - y" "- y \<le> - x" using assms by simp_all
    then have "fl (- y) \<le> fl (- x)" by (rule fl_mono_pos)
    then show ?thesis by (simp add: fl_minus)
  qed
qed

text \<open>Points of the grid are representable, and rounded values are such points.\<close>

lemma fl_fixed_pos:
  assumes "- 1022 \<le> k" "0 < m" "m < 2 ^ 53" "2 ^ 52 \<le> m \<or> k = - 1022"
  shows "fl (of_int m * pow2 (k - 52)) = of_int m * pow2 (k - 52)"
proof -
  let ?v = "of_int m * pow2 (k - 52)"
  have s: "0 < pow2 (k - 52)" by (rule pow2_pos)
  have pos: "0 < ?v" using assms(2) s by simp
  have "?v < 2 ^ 53 * pow2 (k - 52)" using assms(3) s by simp
  then have up: "\<bar>?v\<bar> < pow2 (k + 1)" using pos pow2_53 [of k] by (simp add: mult.commute)
  have low: "pow2 k \<le> \<bar>?v\<bar> \<or> k = - 1022"
  proof (cases "k = - 1022")
    case True
    then show ?thesis by simp
  next
    case False
    then have "2 ^ 52 \<le> m" using assms(4) by blast
    then have "2 ^ 52 * pow2 (k - 52) \<le> ?v" using s by simp
    then show ?thesis using pos pow2_52 [of k] by (simp add: mult.commute)
  qed
  have nz: "?v \<noteq> 0" using pos by linarith
  have e: "ulp_exp ?v = k - 52" by (rule ulp_exp_eq [OF assms(1) up low nz])
  have "?v / pow2 (k - 52) = of_int m" using s by simp
  then show ?thesis using pos e by (simp add: fl_def py_round_of_int)
qed

lemma fl_idem: "fl (fl x) = fl x"
proof -
  have pos: "fl (fl x) = fl x" if x: "0 < x" for x
  proof -
    have "x \<noteq> 0" using x by simp
    then obtain k where k: "ulp_exp x = k - 52" "- 1022 \<le> k" "\<bar>x\<bar> < pow2 (k + 1)"
      "pow2 k \<le> \<bar>x\<bar> \<or> k = - 1022"
      by (rule ulp_exp_cases)
    let ?s = "pow2 (k - 52)"
    let ?m = "py_round (x / ?s)"
    have s: "0 < ?s" by (rule pow2_pos)
    have v: "fl x = of_int ?m * ?s" using x k(1) by (simp add: fl_def)
    have "0 \<le> x / ?s" using x s by simp
    then have m0: "0 \<le> ?m" using py_round_ge [of 0 "x / ?s"] by simp
    have "x < 2 ^ 53 * ?s" using k(3) x pow2_53 [of k] by (simp add: mult.commute)
    then have "x / ?s \<le> of_int (2 ^ 53)" using s by (simp add: field_simps)
    then have m53: "?m \<le> 2 ^ 53" by (rule py_round_le)
    have mlow: "2 ^ 52 \<le> ?m \<or> k = - 1022"
    proof (cases "k = - 1022")
      case True
      then show ?thesis by simp
    next
      case False
      then have "pow2 k \<le> x" using k(4) x by simp
      then have "2 ^ 52 * ?s \<le> x" using pow2_52 [of k] by (simp add: mult.commute)
      then have "of_int (2 ^ 52) \<le> x / ?s" using s by (simp add: field_simps)
      then have "2 ^ 52 \<le> ?m" by (rule py_round_ge)
      then show ?thesis by simp
    qed
    consider "?m = 0" | "0 < ?m" "?m < 2 ^ 53" | "?m = 2 ^ 53" using m0 m53 by linarith
    then show ?thesis
    proof cases
      case 1
      then show ?thesis using v by (simp add: fl_zero)
    next
      case 2
      then show ?thesis using fl_fixed_pos [OF k(2) 2(1) 2(2) mlow] v by simp
    next
      case 3
      have "of_int ?m * ?s = of_int (2 ^ 52) * pow2 ((k + 1) - 52)"
      proof -
        have "pow2 ((k + 1) - 52) = pow2 ((k - 52) + 1)" by (rule arg_cong [where f = pow2]) simp
        also have "\<dots> = ?s * pow2 1" by (rule pow2_add)
        finally show ?thesis using 3 by (simp add: pow2_def)
      qed
      moreover have "fl (of_int (2 ^ 52) * pow2 ((k + 1) - 52)) = of_int (2 ^ 52) * pow2 ((k + 1) - 52)"
        using k(2) by (intro fl_fixed_pos) simp_all
      ultimately show ?thesis using v by simp
    qed
  qed
  consider "0 < x" | "x = 0" | "x < 0" by linarith
  then show ?thesis
  proof cases
    case 1
    then show ?thesis by (rule pos)
  next
    case 2
    then show ?thesis by (simp add: fl_zero)
  next
    case 3
    then have "fl (fl (- x)) = fl (- x)" by (intro pos) simp
    then show ?thesis by (simp add: fl_minus)
  qed
qed

lemma fl_eval:
  assumes "- 1022 \<le> k" "\<bar>x\<bar> < pow2 (k + 1)" "pow2 k \<le> \<bar>x\<bar> \<or> k = - 1022" "x \<noteq> 0"
  shows "fl x = of_int (py_round (x / pow2 (k - 52))) * pow2 (k - 52)"
  using ulp_exp_eq [OF assms] assms(4) by (simp add: fl_def)

lemma fl_multiple: "\<exists>n::int. fl x = of_int n * pow2 (- 1074)"
proof (cases "x = 0")
  case True
  then have "fl x = of_int 0 * pow2 (- 1074)" by (simp add: fl_zero)
  then show ?thesis by blast
next
  case False
  then obtain k where k: "ulp_exp x = k - 52" "- 1022 \<le> k" by (rule ulp_exp_cases)
  have "pow2 (k - 52) = pow2 ((k + 1022) + (- 1074))" by (rule arg_cong [where f = pow2]) simp
  also have "\<dots> = pow2 (k + 1022) * pow2 (- 1074)" by (rule pow2_add)
  also have "pow2 (k + 1022) = of_int (2 ^ nat (k + 1022))" using k(2) by (simp add: pow2_def)
  finally have "fl x = of_int (py_round (x / pow2 (k - 52)) * 2 ^ nat (k + 1022)) * pow2 (- 1074)"
    using False k(1) by (simp add: fl_def)
  then show ?thesis by blast
qed

lemma uniform_double_upper_aux:
  assumes a: "fl a = a" and b: "fl b = b" and ab: "a \<le> b"
    and u0: "0 \<le> u" and u1: "u \<le> 1 - 1 / 2 ^ 53"
  shows "fl (fl (b - a) * u) \<le> b - a"
proof -
  let ?z = "b - a"
  let ?w = "fl ?z"
  have z0: "0 \<le> ?z" using ab by simp
  have w0: "0 \<le> ?w" using z0 by (rule fl_nonneg)
  have ule: "u \<le> 1" using u1 by (simp add: field_simps) 
  show ?thesis
  proof (cases "?w \<le> ?z")
    case True
    have "?w * u \<le> ?w * 1" using w0 ule by (intro mult_left_mono)
    then have "fl (?w * u) \<le> fl ?w" using fl_mono [of "?w * u" ?w] by simp
    then show ?thesis using True by (simp add: fl_idem)
  next
    case False
    then have zw: "?z < ?w" by simp
    have znz: "?z \<noteq> 0" using zw by (auto simp: fl_zero)
    then have zpos: "0 < ?z" using z0 by simp
    obtain k where k: "ulp_exp ?z = k - 52" "- 1022 \<le> k" "\<bar>?z\<bar> < pow2 (k + 1)"
      "pow2 k \<le> \<bar>?z\<bar> \<or> k = - 1022"
      using znz by (rule ulp_exp_cases)
    let ?s = "pow2 (k - 52)"
    let ?n = "py_round (?z / ?s)"
    have s: "0 < ?s" by (rule pow2_pos)
    have w: "?w = of_int ?n * ?s" using znz k(1) by (simp add: fl_def)
    have normal: "pow2 k \<le> ?z"
    proof (rule ccontr)
      assume "\<not> pow2 k \<le> ?z"
      then have k1022: "k = - 1022" using k(4) zpos by simp
      obtain na where na: "fl a = of_int na * pow2 (- 1074)" using fl_multiple by blast
      obtain nb where nb: "fl b = of_int nb * pow2 (- 1074)" using fl_multiple by blast
      have "?z = of_int (nb - na) * pow2 (- 1074)" using na nb a b by (simp add: algebra_simps)
      moreover have "?s = pow2 (- 1074)" using k1022 by simp
      ultimately have "?z / ?s = of_int (nb - na)" using s by simp
      then have "?n = nb - na" by (simp only: py_round_of_int)
      then have "?w = ?z" using w \<open>?z = of_int (nb - na) * pow2 (- 1074)\<close> \<open>?s = pow2 (- 1074)\<close>
        by simp
      then show False using zw by simp
    qed
    have "2 ^ 52 * ?s \<le> ?z" using normal pow2_52 [of k] by (simp add: mult.commute)
    then have zs52: "2 ^ 52 \<le> ?z / ?s" using s by (simp add: field_simps)
    have "?z / ?s < of_int ?n" using zw w s by (simp add: field_simps)
    then have "(2::real) ^ 52 < of_int ?n" using zs52 by linarith
    then have "real_of_int (2 ^ 52) < of_int ?n" by simp
    then have n52: "2 ^ 52 + 1 \<le> ?n" by linarith
    have "?z < 2 ^ 53 * ?s" using k(3) zpos pow2_53 [of k] by (simp add: mult.commute)
    then have "?z / ?s \<le> of_int (2 ^ 53)" using s by (simp add: field_simps)
    then have n53: "?n \<le> 2 ^ 53" by (rule py_round_le)
    have "of_int ?n - ?z / ?s \<le> 1 / 2" using py_round_err [of "?z / ?s"] by linarith
    then have "(of_int ?n - 1) \<le> ?z / ?s" by linarith
    then have qz: "(of_int ?n - 1) * ?s \<le> ?z" using s by (simp add: field_simps)
    let ?q = "of_int (?n - 1) * ?s"
    have q: "?q \<le> ?z" using qz by simp
    have qfix: "fl ?q = ?q"
      using k(2) n52 n53 by (intro fl_fixed_pos) simp_all
    have nreal: "(2::real) ^ 52 + 1 \<le> of_int ?n"
    proof -
      have "real_of_int (2 ^ 52 + 1) \<le> of_int ?n" using n52 by (simp only: of_int_le_iff)
      then show ?thesis by simp
    qed
    have wu: "?w * u < (of_int ?n - 1 / 2) * ?s"
    proof -
      have "?w * u \<le> ?w * (1 - 1 / 2 ^ 53)" using w0 u1 by (intro mult_left_mono)
      also have "\<dots> = (of_int ?n - of_int ?n / 2 ^ 53) * ?s" using w by (simp add: algebra_simps)
      also have "\<dots> < (of_int ?n - 1 / 2) * ?s"
      proof -
        have "1 / 2 < real_of_int ?n / 2 ^ 53" using nreal by (simp add: field_simps)
        then have "of_int ?n - of_int ?n / 2 ^ 53 < real_of_int ?n - 1 / 2" by linarith
        then show ?thesis using s by (simp add: mult_strict_right_mono)
      qed
      finally show ?thesis .
    qed
    have "fl (?w * u) \<le> ?q"
    proof (cases "?w * u \<le> ?q")
      case True
      then have "fl (?w * u) \<le> fl ?q" by (rule fl_mono)
      then show ?thesis using qfix by simp
    next
      case False
      then have lo: "?q < ?w * u" by simp
      have "2 ^ 52 * ?s \<le> ?q" using n52 nreal s by simp
      then have k_le: "pow2 k \<le> ?w * u" using lo pow2_52 [of k] by (simp add: mult.commute)
      have "?w * u < of_int ?n * ?s" using wu s by (simp add: algebra_simps)
      also have "\<dots> \<le> 2 ^ 53 * ?s"
      proof -
        have "real_of_int ?n \<le> of_int (2 ^ 53)" using n53 by (simp only: of_int_le_iff)
        then show ?thesis using s by simp
      qed
      finally have k_up: "?w * u < pow2 (k + 1)" using pow2_53 [of k] by (simp add: mult.commute)
      have wupos: "0 < ?w * u" using k_le pow2_pos [of k] by linarith
      have wunz: "?w * u \<noteq> 0" using wupos by linarith
      have up': "\<bar>?w * u\<bar> < pow2 (k + 1)" using k_up wupos by linarith
      have le': "pow2 k \<le> \<bar>?w * u\<bar> \<or> k = - 1022" using k_le wupos by linarith
      have e: "fl (?w * u) = of_int (py_round (?w * u / ?s)) * ?s"
        by (rule fl_eval [OF k(2) up' le' wunz])
      have "?w * u / ?s < of_int ?n - 1 / 2" using wu s by (simp add: field_simps)
      then have "py_round (?w * u / ?s) \<le> ?n - 1" by (rule py_round_below_half)
      then have "real_of_int (py_round (?w * u / ?s)) \<le> of_int (?n - 1)"
        by (simp only: of_int_le_iff)
      then have "of_int (py_round (?w * u / ?s)) * ?s \<le> ?q"
        using s by (intro mult_right_mono) simp_all
      then show ?thesis by (simp only: e)
    qed
    then show ?thesis using q by linarith
  qed
qed

lemma uniform_double_bounds_le:
  assumes "fl a = a" "fl b = b" "a \<le> b" "0 \<le> u" "u \<le> 1 - 1 / 2 ^ 53"
  shows "a \<le> uniform_double a b u" "uniform_double a b u \<le> b"
proof -
  let ?m = "fl (fl (b - a) * u)"
  have "0 \<le> fl (b - a)" using assms(3) by (intro fl_nonneg) simp
  then have "0 \<le> fl (b - a) * u" using assms(4) by simp
  then have m0: "0 \<le> ?m" by (rule fl_nonneg)
  have "fl a \<le> fl (a + ?m)" using m0 by (intro fl_mono) simp
  then show "a \<le> uniform_double a b u" using assms(1) by (simp add: uniform_double_def)
  have "?m \<le> b - a" by (rule uniform_double_upper_aux [OF assms])
  then have "fl (a + ?m) \<le> fl b" by (intro fl_mono) simp
  then show "uniform_double a b u \<le> b" using assms(2) by (simp add: uniform_double_def)
qed

lemma uniform_double_minus: "uniform_double (- a) (- b) u = - uniform_double a b u"
proof -
  have "- b - - a = - (b - a)" by simp
  then have "fl (- b - - a) = - fl (b - a)" by (simp only: fl_minus)
  then have "fl (fl (- b - - a) * u) = - fl (fl (b - a) * u)"
    using fl_minus [of "fl (b - a) * u"] by simp
  then have "fl (- a + fl (fl (- b - - a) * u)) = - fl (a + fl (fl (b - a) * u))"
    using fl_minus [of "a + fl (fl (b - a) * u)"] by simp
  then show ?thesis by (simp add: uniform_double_def)
qed

lemma uniform_double_bounds:
  assumes "fl a = a" "fl b = b" "0 \<le> u" "u \<le> 1 - 1 / 2 ^ 53"
  shows "min a b \<le> uniform_double a b u \<and> uniform_double a b u \<le> max a b"
proof (cases "a \<le> b")
  case True
  then show ?thesis using uniform_double_bounds_le [OF assms(1,2) True assms(3,4)] by simp
next
  case False
  then have ba: "- a \<le> - b" by simp
  have fa: "fl (- a) = - a" and fb: "fl (- b) = - b" using assms(1,2) by (simp_all add: fl_minus)
  from uniform_double_bounds_le [OF fa fb ba assms(3,4)]
  show ?thesis using False by (simp add: uniform_double_minus)
qed

lemma coord_err:
  assumes r: "0 \<le> r" "r \<le> Rd" and C: "\<bar>C - c\<bar> \<le> 1 / 2 ^ 52" and c: "\<bar>c\<bar> \<le> 1"
  shows "\<bar>fl (c1 + fl (r * C)) - c1 - r * c\<bar>
           \<le> 5 * Rd / 2 ^ 53 + \<bar>c1\<bar> / 2 ^ 53 + 3 * pow2 (- 1075)"
proof -
  let ?x = "fl (r * C)"
  let ?lat = "fl (c1 + ?x)"
  have eta: "0 < pow2 (- 1075)" by (rule pow2_pos)
  have Rd0: "0 \<le> Rd" using r by linarith
  have "r * C - r * c = r * (C - c)" by (simp add: algebra_simps)
  then have "\<bar>r * C - r * c\<bar> = r * \<bar>C - c\<bar>" using r(1) by (simp add: abs_mult)
  also have "\<dots> \<le> Rd * (1 / 2 ^ 52)" using r C by (intro mult_mono) simp_all
  finally have h1: "\<bar>r * C - r * c\<bar> \<le> Rd / 2 ^ 52" by simp
  have Cb: "\<bar>C\<bar> \<le> 1 + 1 / 2 ^ 52" using C c by linarith
  have "\<bar>r * C\<bar> = r * \<bar>C\<bar>" using r(1) by (simp add: abs_mult)
  also have "\<dots> \<le> Rd * (1 + 1 / 2 ^ 52)" using r Cb by (intro mult_mono) simp_all
  finally have "\<bar>r * C\<bar> \<le> Rd * (1 + 1 / 2 ^ 52)" .
  then have hA: "\<bar>r * C\<bar> \<le> Rd + Rd / 2 ^ 52" by (simp add: algebra_simps)
  have h3: "\<bar>?x - r * C\<bar> \<le> \<bar>r * C\<bar> / 2 ^ 53 + pow2 (- 1075)" by (rule fl_err)
  have h4: "\<bar>?lat - (c1 + ?x)\<bar> \<le> \<bar>c1 + ?x\<bar> / 2 ^ 53 + pow2 (- 1075)" by (rule fl_err)
  have hX: "\<bar>?x\<bar> \<le> \<bar>r * C\<bar> + \<bar>r * C\<bar> / 2 ^ 53 + pow2 (- 1075)" using h3 by linarith
  have hS: "\<bar>c1 + ?x\<bar> \<le> \<bar>c1\<bar> + \<bar>?x\<bar>" by (rule abs_triangle_ineq)
  have hL: "\<bar>?lat - (c1 + ?x)\<bar> \<le> (\<bar>c1\<bar> + \<bar>?x\<bar>) / 2 ^ 53 + pow2 (- 1075)"
  proof -
    have "\<bar>c1 + ?x\<bar> / 2 ^ 53 \<le> (\<bar>c1\<bar> + \<bar>?x\<bar>) / 2 ^ 53" using hS by (simp add: divide_right_mono)
    then show ?thesis using h4 by linarith
  qed
  have tri: "\<bar>?lat - c1 - r * c\<bar> \<le> \<bar>?lat - (c1 + ?x)\<bar> + \<bar>?x - r * C\<bar> + \<bar>r * C - r * c\<bar>"
    by linarith
  define A where "A = \<bar>r * C\<bar>"
  define X where "X = \<bar>?x\<bar>"
  define L where "L = \<bar>?lat - (c1 + ?x)\<bar>"
  define M where "M = \<bar>?x - r * C\<bar>"
  define P where "P = \<bar>r * C - r * c\<bar>"
  define K where "K = \<bar>c1\<bar>"
  define e where "e = pow2 (- 1075)"
  have 1: "P \<le> Rd / 2 ^ 52" using h1 by (simp add: P_def)
  have 2: "A \<le> Rd + Rd / 2 ^ 52" using hA by (simp add: A_def)
  have 3: "M \<le> A / 2 ^ 53 + e" using h3 by (simp add: M_def A_def e_def)
  have 4: "X \<le> A + A / 2 ^ 53 + e" using hX by (simp add: X_def A_def e_def)
  have 5: "L \<le> (K + X) / 2 ^ 53 + e" using hL by (simp add: L_def K_def X_def e_def)
  have 6: "0 < e" using eta by (simp add: e_def)
  have 7: "0 \<le> K" by (simp add: K_def)
  have "L + M + P \<le> 5 * Rd / 2 ^ 53 + K / 2 ^ 53 + 3 * e"
    using 1 2 3 4 5 6 7 Rd0 by (simp add: field_simps)
  then show ?thesis using tri by (simp add: L_def M_def P_def K_def e_def)
qed

lemma polar_double_bound:
  assumes r: "0 \<le> r" "r \<le> Rd"
    and C: "\<bar>C - cos t\<bar> \<le> 1 / 2 ^ 52" and S: "\<bar>S - sin t\<bar> \<le> 1 / 2 ^ 52"
  shows "sqrt ((fl (c1 + fl (r * C)) - c1)\<^sup>2 + (fl (c2 + fl (r * S)) - c2)\<^sup>2)
           \<le> Rd + Rd / 2 ^ 49 + (\<bar>c1\<bar> + \<bar>c2\<bar>) / 2 ^ 53 + pow2 (- 1072)"
proof -
  let ?lat = "fl (c1 + fl (r * C))"
  let ?lon = "fl (c2 + fl (r * S))"
  define ex where "ex = ?lat - c1 - r * cos t"
  define ey where "ey = ?lon - c2 - r * sin t"
  have bx: "\<bar>ex\<bar> \<le> 5 * Rd / 2 ^ 53 + \<bar>c1\<bar> / 2 ^ 53 + 3 * pow2 (- 1075)"
    unfolding ex_def by (rule coord_err [OF r C]) simp
  have by': "\<bar>ey\<bar> \<le> 5 * Rd / 2 ^ 53 + \<bar>c2\<bar> / 2 ^ 53 + 3 * pow2 (- 1075)"
    unfolding ey_def by (rule coord_err [OF r S]) simp
  have "(r * cos t)\<^sup>2 + (r * sin t)\<^sup>2 = r\<^sup>2 * ((sin t)\<^sup>2 + (cos t)\<^sup>2)"
    by (simp only: power_mult_distrib distrib_left add.commute)
  also have "\<dots> = r\<^sup>2" by (simp only: sin_cos_squared_add mult_1_right)
  finally have "sqrt ((r * cos t)\<^sup>2 + (r * sin t)\<^sup>2) = \<bar>r\<bar>" by simp
  then have main: "sqrt ((r * cos t)\<^sup>2 + (r * sin t)\<^sup>2) = r" using r(1) by simp
  have "sqrt ((?lat - c1)\<^sup>2 + (?lon - c2)\<^sup>2)
          = sqrt ((r * cos t + ex)\<^sup>2 + (r * sin t + ey)\<^sup>2)"
    by (simp add: ex_def ey_def)
  also have "\<dots> \<le> sqrt ((r * cos t)\<^sup>2 + (r * sin t)\<^sup>2) + sqrt (ex\<^sup>2 + ey\<^sup>2)"
    by (rule real_sqrt_sum_squares_triangle_ineq)
  also have "\<dots> \<le> r + (\<bar>ex\<bar> + \<bar>ey\<bar>)"
    using sqrt_sum_squares_le_sum_abs [of ex ey] main by linarith
  finally have d: "sqrt ((?lat - c1)\<^sup>2 + (?lon - c2)\<^sup>2) \<le> r + (\<bar>ex\<bar> + \<bar>ey\<bar>)" .
  have p: "pow2 (- 1072) = 8 * pow2 (- 1075)" by (simp add: pow2_def)
  have Rd0: "0 \<le> Rd" using r by linarith
  have "r + (\<bar>ex\<bar> + \<bar>ey\<bar>) \<le> Rd + Rd / 2 ^ 49 + (\<bar>c1\<bar> + \<bar>c2\<bar>) / 2 ^ 53 + pow2 (- 1072)"
    using bx by' r(2) Rd0 pow2_pos [of "- 1075"] unfolding p by (simp add: field_simps)
  then show ?thesis using d by linarith
qed

subsection \<open>Location sampling\<close>

lemma hotspot_branch:
  assumes "u_bias d < hotspot_bias"
    and "k_category d < length (hotspots self)"
    and "k_hotspot d < length (snd (hotspots self ! k_category d))"
    and "distinct (map fst (hotspots self))"
  shows "get_random_location self hotspot_bias d =
           Inr (fst (center (chosen_hotspot self d))
                  + uniform 0 (radius (chosen_hotspot self d)) (u_radius d)
                    * cos (uniform 0 (2 * pi) (u_angle d)),
                snd (center (chosen_hotspot self d))
                  + uniform 0 (radius (chosen_hotspot self d)) (u_radius d)
                    * sin (uniform 0 (2 * pi) (u_angle d)))"
proof -
  have c: "random_choice (map fst (hotspots self)) (k_category d)
             = Inr (fst (hotspots self ! k_category d))"
    using assms(2) by (simp add: random_choice_nth)
  have m: "map_of (hotspots self) (fst (hotspots self ! k_category d))
             = Some (snd (hotspots self ! k_category d))"
    by (rule map_of_nth_distinct [OF assms(4) assms(2)])
  have h: "random_choice (snd (hotspots self ! k_category d)) (k_hotspot d)
             = Inr (chosen_hotspot self d)"
    using assms(3) by (simp add: random_choice_nth chosen_hotspot_def)
  show ?thesis
    using assms(1) by (simp add: get_random_location_def c m h Let_def)
qed

lemma default_grid_keys: "distinct (map fst (hotspots CityGrid_default))"
  by (simp add: CityGrid_default_def CityGrid_init_def)

lemma default_grid_radius:
  assumes "loc_draw_ok CityGrid_default d"
  shows "0 \<le> radius (chosen_hotspot CityGrid_default d)"
proof -
  have "\<forall>item \<in> set (hotspots CityGrid_default). \<forall>h \<in> set (snd item). 0 \<le> radius h"
    by (simp add: CityGrid_default_def CityGrid_init_def)
  moreover have "hotspots CityGrid_default ! k_category d \<in> set (hotspots CityGrid_default)"
    using assms by (simp add: loc_draw_ok_def)
  moreover have "chosen_hotspot CityGrid_default d
                   \<in> set (snd (hotspots CityGrid_default ! k_category d))"
    using assms by (simp add: loc_draw_ok_def chosen_hotspot_def)
  ultimately show ?thesis by blast
qed

lemma location_total:
  assumes "loc_draw_ok grid d" "distinct (map fst (hotspots grid))"
  shows "\<exists>p. get_random_location grid bias d = Inr p"
proof (cases "u_bias d < bias")
  case True
  show ?thesis
    using hotspot_branch [OF True _ _ assms(2)] assms(1) by (simp add: loc_draw_ok_def)
next
  case False
  then show ?thesis by (simp add: get_random_location_def)
qed

text \<open>The sampler in double precision.\<close>

lemma fl_one: "fl 1 = 1"
proof -
  have "fl (of_int (2 ^ 52) * pow2 (0 - 52)) = of_int (2 ^ 52) * pow2 (0 - 52)"
    by (intro fl_fixed_pos) simp_all
  then show ?thesis by (simp add: pow2_def)
qed

lemma radial_draw_bounds:
  assumes "0 \<le> R" "0 \<le> u" "u \<le> 1"
  shows "0 \<le> uniform_double 0 (fl R) u" "uniform_double 0 (fl R) u \<le> fl R"
proof -
  have eq: "uniform_double 0 (fl R) u = fl (fl R * u)"
    by (simp add: uniform_double_def fl_idem)
  have R0: "0 \<le> fl R" using assms(1) by (rule fl_nonneg)
  then have "0 \<le> fl R * u" using assms(2) by simp
  then show "0 \<le> uniform_double 0 (fl R) u" unfolding eq by (rule fl_nonneg)
  have "fl R * u \<le> fl R * 1" using R0 assms(3) by (intro mult_left_mono)
  then have "fl (fl R * u) \<le> fl (fl R)" using fl_mono [of "fl R * u" "fl R"] by simp
  then show "uniform_double 0 (fl R) u \<le> fl R" unfolding eq by (simp add: fl_idem)
qed

lemma hotspot_branch_double:
  assumes "u_bias d < fl hotspot_bias"
    and "k_category d < length (hotspots self)"
    and "k_hotspot d < length (snd (hotspots self ! k_category d))"
    and "distinct (map fst (hotspots self))"
  shows "get_random_location_double libm_cos libm_sin self hotspot_bias d =
           Inr (fl (fl (fst (center (chosen_hotspot self d)))
                    + fl (uniform_double 0 (fl (radius (chosen_hotspot self d))) (u_radius d)
                          * libm_cos (sampled_angle d))),
                fl (fl (snd (center (chosen_hotspot self d)))
                    + fl (uniform_double 0 (fl (radius (chosen_hotspot self d))) (u_radius d)
                          * libm_sin (sampled_angle d))))"
proof -
  have c: "random_choice (map fst (hotspots self)) (k_category d)
             = Inr (fst (hotspots self ! k_category d))"
    using assms(2) by (simp add: random_choice_nth)
  have m: "map_of (hotspots self) (fst (hotspots self ! k_category d))
             = Some (snd (hotspots self ! k_category d))"
    by (rule map_of_nth_distinct [OF assms(4) assms(2)])
  have h: "random_choice (snd (hotspots self ! k_category d)) (k_hotspot d)
             = Inr (chosen_hotspot self d)"
    using assms(3) by (simp add: random_choice_nth chosen_hotspot_def)
  show ?thesis
    using assms(1) by (simp add: get_random_location_double_def c m h Let_def)
qed

text \<open>The roundings at the edge of Midtown.\<close>

lemma fl_radius_midtown: "fl 0.02 = 5764607523034235 / 2 ^ 58"
proof -
  have "fl 0.02 = of_int (py_round (0.02 / pow2 (- 6 - 52))) * pow2 (- 6 - 52)"
    by (rule fl_eval) (simp_all add: pow2_def)
  then show ?thesis by (simp add: pow2_def py_round_def)
qed

lemma fl_edge_radius:
  "fl (5764607523034235 / 2 ^ 58 * (1 - 1 / 2 ^ 53)) = 5764607523034234 / 2 ^ 58"
proof -
  have "fl (5764607523034235 / 2 ^ 58 * (1 - 1 / 2 ^ 53))
          = of_int (py_round (5764607523034235 / 2 ^ 58 * (1 - 1 / 2 ^ 53) / pow2 (- 6 - 52)))
            * pow2 (- 6 - 52)"
    by (rule fl_eval) (simp_all add: pow2_def)
  then show ?thesis by (simp add: pow2_def py_round_def)
qed

lemma fl_lat_midtown: "fl 40.75 = 40.75"
proof -
  have "fl 40.75 = of_int (py_round (40.75 / pow2 (5 - 52))) * pow2 (5 - 52)"
    by (rule fl_eval) (simp_all add: pow2_def)
  then show ?thesis by (simp add: pow2_def py_round_def)
qed

lemma fl_lon_midtown: "fl (- 73.98) = - 5205879694263583 / 2 ^ 46"
proof -
  have "fl (- 73.98) = of_int (py_round (- 73.98 / pow2 (6 - 52))) * pow2 (6 - 52)"
    by (rule fl_eval) (simp_all add: pow2_def)
  then show ?thesis by (simp add: pow2_def py_round_def)
qed

lemma fl_edge_lat: "fl (40.75 + 5764607523034234 / 2 ^ 58) = 5737867400246723 / 2 ^ 47"
proof -
  have "fl (40.75 + 5764607523034234 / 2 ^ 58)
          = of_int (py_round ((40.75 + 5764607523034234 / 2 ^ 58) / pow2 (5 - 52))) * pow2 (5 - 52)"
    by (rule fl_eval) (simp_all add: pow2_def)
  then show ?thesis by (simp add: pow2_def py_round_def)
qed


lemma edge_draw_ok: "loc_draw_ok CityGrid_default edge_loc_draw"
  by (simp add: loc_draw_ok_def edge_loc_draw_def CityGrid_default_def CityGrid_init_def)

lemma edge_chosen:
  "chosen_hotspot CityGrid_default edge_loc_draw
     = \<lparr> center = (40.75, -73.98), radius = 0.02, name = ''Midtown'' \<rparr>"
  by (simp add: chosen_hotspot_def CityGrid_default_def CityGrid_init_def edge_loc_draw_def)

lemma edge_angle: "sampled_angle edge_loc_draw = 0"
  by (simp add: sampled_angle_def uniform_double_def edge_loc_draw_def fl_zero)

lemma edge_radial:
  "uniform_double 0 (fl (radius (chosen_hotspot CityGrid_default edge_loc_draw)))
     (u_radius edge_loc_draw) = 5764607523034234 / 2 ^ 58"
proof -
  have "uniform_double 0 (fl 0.02) (1 - 1 / 2 ^ 53) = fl (fl 0.02 * (1 - 1 / 2 ^ 53))"
    by (simp add: uniform_double_def fl_idem)
  also have "\<dots> = fl (5764607523034235 / 2 ^ 58 * (1 - 1 / 2 ^ 53))"
    by (simp only: fl_radius_midtown)
  also have "\<dots> = 5764607523034234 / 2 ^ 58" by (rule fl_edge_radius)
  finally have calc: "uniform_double 0 (fl 0.02) (1 - 1 / 2 ^ 53) = 5764607523034234 / 2 ^ 58" .
  have rad: "radius (chosen_hotspot CityGrid_default edge_loc_draw) = 0.02"
    by (simp add: edge_chosen)
  have u: "u_radius edge_loc_draw = 1 - 1 / 2 ^ 53" by (simp add: edge_loc_draw_def)
  show ?thesis unfolding rad u by (rule calc)
qed

subsection \<open>Demand factor\<close>

text \<open>The chain of branches agrees with the table of the specification and never lowers
  the factor: the computation that the method attempts is the specified one.\<close>

lemma category_adjust_spec:
  assumes "0 \<le> h" "h \<le> 23"
  shows "category_adjust c h df = df + spec_increment c h"
  using assms by (simp add: category_adjust_def spec_increment_def Let_def)

lemma category_adjust_ge: "df \<le> category_adjust c h df"
  by (simp add: category_adjust_def Let_def)

text \<open>The first hotspot that the loops reach ends the call.\<close>

lemma hotspot_step_raises: "hotspot_step location hour category df h = Inl NameError"
  by (simp add: hotspot_step_def geodesic_def)

lemma hotspots_loop_raises:
  "hs \<noteq> [] \<Longrightarrow> hotspots_loop location hour category df hs = Inl NameError"
  by (cases hs) (simp_all add: hotspot_step_raises)

lemma hotspots_loop_empty: "hotspots_loop location hour category df [] = Inr df"
  by simp

lemma categories_loop_raises:
  assumes "\<exists>item \<in> set items. snd item \<noteq> []"
  shows "categories_loop location hour df items = Inl NameError"
  using assms
proof (induction items)
  case Nil
  then show ?case by simp
next
  case (Cons item items)
  show ?case
  proof (cases "snd item = []")
    case True
    then have "\<exists>it \<in> set items. snd it \<noteq> []" using Cons.prems by auto
    then show ?thesis using Cons.IH True by simp
  next
    case False
    then show ?thesis by (simp add: hotspots_loop_raises)
  qed
qed

lemma demand_factor_raises:
  assumes "\<exists>item \<in> set (hotspots self). snd item \<noteq> []"
  shows "get_hotspot_demand_factor self location hour = Inl NameError"
  by (simp add: get_hotspot_demand_factor_def categories_loop_raises [OF assms])

lemma built_in_table_nonempty: "\<exists>item \<in> set (hotspots (CityGrid_init lat_rng lon_rng)). snd item \<noteq> []"
  by (simp add: CityGrid_init_def)

subsection \<open>Entity pools\<close>

lemma new_driver_total:
  assumes "driver_draw_ok d" "city_grid self = CityGrid_default"
    and "vehicle_types self =
           [(''Economy'', 4), (''Comfort'', 4), (''Premium'', 4), (''SUV'', 6), (''Van'', 8)]"
  shows "\<exists>drv. new_driver self d = Inr drv"
proof -
  have ok: "loc_draw_ok CityGrid_default (loc_driver d)"
    using assms(1) by (simp add: driver_draw_ok_def)
  obtain p where p: "get_random_location (city_grid self) 0.8 (loc_driver d) = Inr p"
    unfolding assms(2) using location_total [OF ok default_grid_keys] by blast
  have k: "k_vehicle_type d < length (vehicle_types self)"
    using assms(1,3) by (simp add: driver_draw_ok_def)
  have c: "random_choice (map fst (vehicle_types self)) (k_vehicle_type d)
             = Inr (fst (vehicle_types self ! k_vehicle_type d))"
    using k by (simp add: random_choice_nth)
  have "distinct (map fst (vehicle_types self))" by (simp add: assms(3))
  then have m: "map_of (vehicle_types self) (fst (vehicle_types self ! k_vehicle_type d))
             = Some (snd (vehicle_types self ! k_vehicle_type d))"
    using k by (rule map_of_nth_distinct)
  obtain st where st:
    "random_choices [''AVAILABLE'', ''BUSY'', ''OFFLINE''] [0.6, 0.3, 0.1] (u_status d) = Inr st"
    using random_choices_total
      [of "[''AVAILABLE'', ''BUSY'', ''OFFLINE'']" "[0.6, 0.3, 0.1]" "u_status d"]
    by auto
  show ?thesis unfolding new_driver_def Let_def p c st sum.case m option.case by blast
qed

lemma new_user_total:
  assumes "user_draw_ok d" "city_grid self = CityGrid_default"
    and "vehicle_types self =
           [(''Economy'', 4), (''Comfort'', 4), (''Premium'', 4), (''SUV'', 6), (''Van'', 8)]"
  shows "\<exists>usr. new_user self d = Inr usr"
proof -
  have ok: "loc_draw_ok CityGrid_default (loc_home d)" "loc_draw_ok CityGrid_default (loc_work d)"
    using assms(1) by (simp_all add: user_draw_ok_def)
  obtain p where p: "get_random_location (city_grid self) 0.9 (loc_home d) = Inr p"
    unfolding assms(2) using location_total [OF ok(1) default_grid_keys] by blast
  obtain q where q: "get_random_location (city_grid self) 0.9 (loc_work d) = Inr q"
    unfolding assms(2) using location_total [OF ok(2) default_grid_keys] by blast
  obtain pref where pref:
    "random_choices (map fst (vehicle_types self)) [0.5, 0.25, 0.15, 0.07, 0.03] (u_preferred d)
       = Inr pref"
    using random_choices_total
      [of "map fst (vehicle_types self)" "[0.5, 0.25, 0.15, 0.07, 0.03]" "u_preferred d"]
    by (auto simp: assms(3))
  show ?thesis unfolding new_user_def Let_def p q pref sum.case by simp
qed

lemma initialize_drivers_loop_total:
  assumes "\<forall>i. driver_draw_ok (ds i)" "city_grid self = CityGrid_default"
    and "vehicle_types self =
           [(''Economy'', 4), (''Comfort'', 4), (''Premium'', 4), (''SUV'', 6), (''Van'', 8)]"
  shows "\<exists>res. initialize_drivers_loop self ds i n drvs = Inr res"
proof (induction n arbitrary: i drvs)
  case 0
  show ?case by simp
next
  case (Suc n)
  obtain drv where d: "new_driver self (ds i) = Inr drv"
    using new_driver_total [OF _ assms(2,3)] assms(1) by blast
  show ?case using Suc.IH [of "Suc i" "AList.update (driver_id drv) drv drvs"] by (simp add: d)
qed

lemma initialize_users_loop_total:
  assumes "\<forall>i. user_draw_ok (ds i)" "city_grid self = CityGrid_default"
    and "vehicle_types self =
           [(''Economy'', 4), (''Comfort'', 4), (''Premium'', 4), (''SUV'', 6), (''Van'', 8)]"
  shows "\<exists>res. initialize_users_loop self ds i n usrs = Inr res"
proof (induction n arbitrary: i usrs)
  case 0
  show ?case by simp
next
  case (Suc n)
  obtain usr where u: "new_user self (ds i) = Inr usr"
    using new_user_total [OF _ assms(2,3)] assms(1) by blast
  show ?case using Suc.IH [of "Suc i" "AList.update (user_id usr) usr usrs"] by (simp add: u)
qed

lemma list_all_update:
  "P (k, v) \<Longrightarrow> list_all P al \<Longrightarrow> list_all P (AList.update k v al)"
  by (induction al) auto

lemma users_wf_update:
  "users_wf usrs \<Longrightarrow> users_wf (AList.update (user_id usr) usr usrs)"
  by (simp add: users_wf_def distinct_update list_all_update)

lemma initialize_users_loop_wf:
  "initialize_users_loop self ds i n usrs = Inr res \<Longrightarrow> users_wf usrs \<Longrightarrow> users_wf res"
proof (induction n arbitrary: i usrs)
  case 0
  then show ?case by simp
next
  case (Suc n)
  from Suc.prems(1) obtain usr where
    rest: "initialize_users_loop self ds (Suc i) n (AList.update (user_id usr) usr usrs) = Inr res"
    by (auto split: sum.splits)
  show ?case by (rule Suc.IH [OF rest users_wf_update [OF Suc.prems(2)]])
qed

text \<open>The sample generator is the one that \<open>__init__\<close> builds from the sample draws.\<close>

lemma sample_generator_init:
  "RideHailingDataGenerator_init \<lparr> num_drivers = 0, num_users = 1, base_request_rate = 5 \<rparr>
     1700000000 sample_driver_draws sample_user_draws = Inr sample_generator"
  by (simp add: RideHailingDataGenerator_init_def initialize_drivers_def initialize_users_def
      range_len_def new_user_def sample_user_draws_def sample_loc_draw_def
      get_random_location_def CityGrid_default_def CityGrid_init_def random_choice_def
      random_choices_def bisect_def uniform_def Let_def sample_generator_def sample_user_def)

lemma sample_draws_ok: "driver_draw_ok (sample_driver_draws i)" "user_draw_ok (sample_user_draws i)"
  by (simp_all add: driver_draw_ok_def user_draw_ok_def sample_driver_draws_def
      sample_user_draws_def loc_draw_ok_def sample_loc_draw_def CityGrid_default_def
      CityGrid_init_def)

subsection \<open>The request loop\<close>

lemma new_request_empty: "users self = [] \<Longrightarrow> new_request self d = Inl IndexError"
  by (simp add: new_request_def random_choice_def)

lemma new_request_nonempty: "users self \<noteq> [] \<Longrightarrow> \<exists>r. new_request self d = Inr r"
  by (simp add: new_request_def random_choice_def)

lemma new_request_timestamp:
  "new_request self d = Inr r \<Longrightarrow> timestamp r = current_time self + int (k_jitter d)"
  by (auto simp: new_request_def randint_def split: sum.splits)

lemma requests_loop_Inr:
  assumes "requests_loop self ds i n acc = Inr batch"
  shows "length batch = length acc + n
       \<and> (\<forall>j<length acc. batch ! j = acc ! j)
       \<and> (\<forall>j<n. new_request self (ds (i + j)) = Inr (batch ! (length acc + j)))"
  using assms
proof (induction n arbitrary: i acc)
  case 0
  then show ?case by simp
next
  case (Suc n)
  from Suc.prems obtain r where r: "new_request self (ds i) = Inr r"
    and rest: "requests_loop self ds (Suc i) n (acc @ [r]) = Inr batch"
    by (auto split: sum.splits)
  from Suc.IH [OF rest]
  have len: "length batch = length (acc @ [r]) + n"
    and pre: "\<forall>j<length (acc @ [r]). batch ! j = (acc @ [r]) ! j"
    and new: "\<forall>j<n. new_request self (ds (Suc i + j)) = Inr (batch ! (length (acc @ [r]) + j))"
    by blast+
  have p1: "\<forall>j<length acc. batch ! j = acc ! j"
  proof (intro allI impI)
    fix j assume j: "j < length acc"
    then have "batch ! j = (acc @ [r]) ! j" using pre by simp
    then show "batch ! j = acc ! j" using j by (simp add: nth_append)
  qed
  have at: "batch ! length acc = r"
    using pre [rule_format, of "length acc"] by simp
  have p2: "\<forall>j<Suc n. new_request self (ds (i + j)) = Inr (batch ! (length acc + j))"
  proof (intro allI impI)
    fix j assume j: "j < Suc n"
    show "new_request self (ds (i + j)) = Inr (batch ! (length acc + j))"
    proof (cases j)
      case 0
      then show ?thesis using r at by simp
    next
      case (Suc j')
      then have "j' < n" using j by simp
      then show ?thesis using new Suc by simp
    qed
  qed
  show ?case using len p1 p2 by simp
qed

lemma requests_loop_total:
  assumes "users self \<noteq> []"
  shows "\<exists>batch. requests_loop self ds i n acc = Inr batch"
proof (induction n arbitrary: i acc)
  case 0
  show ?case by simp
next
  case (Suc n)
  obtain r where r: "new_request self (ds i) = Inr r"
    using new_request_nonempty [OF assms] by blast
  show ?case using Suc.IH [of "Suc i" "acc @ [r]"] by (simp add: r)
qed

lemma tick_Inr:
  assumes "generate_ride_requests self z ds = (Inr batch, self')"
  shows "self' = self\<lparr>current_time := current_time self + 5\<rparr>
       \<and> int (length batch) = max 1 (py_int (gauss (base_request_rate (config self)) 1 z))
       \<and> (\<forall>i<length batch. new_request self (ds i) = Inr (batch ! i))"
proof -
  let ?n = "range_len (max 1 (py_int (gauss (base_request_rate (config self)) 1 z)))"
  from assms have loop: "requests_loop self ds 0 ?n [] = Inr batch"
    and s: "self' = self\<lparr>current_time := current_time self + 5\<rparr>"
    by (auto simp: generate_ride_requests_def Let_def split: sum.splits)
  from requests_loop_Inr [OF loop]
  have "length batch = ?n" and "\<forall>j<?n. new_request self (ds j) = Inr (batch ! j)"
    by simp_all
  then show ?thesis using s range_len_max by simp
qed

lemma run_ticks_clock:
  "run_ticks self ts = Inr self'
     \<Longrightarrow> current_time self' = current_time self + 5 * int (length ts)"
proof (induction ts arbitrary: self)
  case Nil
  then show ?case by simp
next
  case (Cons t ts)
  from Cons.prems obtain batch s1 where
    g: "generate_ride_requests self (fst t) (snd t) = (Inr batch, s1)"
    and rest: "run_ticks s1 ts = Inr self'"
    by (auto split: prod.splits sum.splits)
  from tick_Inr [OF g] have "current_time s1 = current_time self + 5" by simp
  with Cons.IH [OF rest] show ?case by simp
qed

text \<open>One tick of the sample generator with a normal draw of -10: a single request.\<close>

lemma sample_tick:
  "generate_ride_requests sample_generator (- 10) sample_request_draws
     = (Inr [sample_request], sample_generator\<lparr>current_time := 1700000005\<rparr>)"
  by (simp add: generate_ride_requests_def sample_generator_def sample_request_draws_def
      sample_request_def sample_user_def gauss_def py_int_def range_len_def new_request_def
      random_choice_def randint_def uniform_def py_round_ndigits_def py_round_def Let_def)

section \<open>The demand factor\<close>

text \<open>
  Claim C3 says that for every location and every hour in [0, 23] the demand factor equals
  1.0 plus the table increments of all hotspots in range, floored at 0.1. The method returns
  no factor: for the grid that \<open>CityGrid.__init__\<close> builds, with any bounding ranges, every
  call raises \<open>NameError\<close> when the inner loop reaches the first hotspot and evaluates the
  unbound name \<open>geodesic\<close>.
\<close>

theorem demand_factor_name_error:
  "get_hotspot_demand_factor (CityGrid_init lat_rng lon_rng) location hour = Inl NameError"
  by (rule demand_factor_raises [OF built_in_table_nonempty])

text \<open>
  Claim C10 says that for every location and every hour the demand factor is at least 1.0.
  No call on the default grid returns a value, at least 1.0 or otherwise; at the centre of
  Midtown at hour 8 the call raises \<open>NameError\<close>.
\<close>

theorem demand_factor_no_value:
  "get_hotspot_demand_factor CityGrid_default (40.75, -73.98) 8 = Inl NameError
   \<and> \<not> (\<exists>v. get_hotspot_demand_factor CityGrid_default location hour = Inr v \<and> 1 \<le> v)"
  by (simp add: CityGrid_default_def demand_factor_raises [OF built_in_table_nonempty])

section \<open>The trip estimate\<close>

text \<open>
  Claim C4 says that the returned fare is 2.50 + distance * 1.75 + duration * 0.35, rounded
  to 2 decimals, all three returned quantities coming from a single distance value. The
  method returns no estimate: its first statement evaluates the unbound name \<open>geodesic\<close> and
  raises \<open>NameError\<close>, for every pickup, destination and draw.
\<close>

theorem trip_details_name_error:
  "calculate_trip_details pickup dest d = Inl NameError"
  by (simp add: calculate_trip_details_def geodesic_def)

section \<open>The location sampler\<close>

text \<open>
  Claim C5, as the specification states it, fails of the arithmetic that the interpreter
  performs: a sample of the hotspot-biased branch can lie outside the chosen hotspot's
  radius. For Midtown (centre (40.75, -73.98), radius 0.02), the angle draw 0 and the
  radius draw \<open>1 - 2 ^ (-53)\<close>, the largest that \<open>random.random()\<close> returns, the radial
  offset is the double just below 0.02, and the rounded sum \<open>40.75 + offset\<close> is the
  latitude 40.77000000000000312..., which lies about \<open>3.1e-15\<close> farther from the centre
  than the radius as the table holds it. (\<open>math.cos(0.0)\<close> is 1.0 and \<open>math.sin(0.0)\<close> is 0.0
  in every C library, the values of \<open>cos\<close> and \<open>sin\<close> passed here.)
\<close>

theorem sampled_location_outside_radius_counterexample:
  "get_random_location_double cos sin CityGrid_default 1 edge_loc_draw
     = Inr (5737867400246723 / 2 ^ 47, - 5205879694263583 / 2 ^ 46)
   \<and> center_double (chosen_hotspot CityGrid_default edge_loc_draw)
       = (40.75, - 5205879694263583 / 2 ^ 46)
   \<and> fl (radius (chosen_hotspot CityGrid_default edge_loc_draw)) = 5764607523034235 / 2 ^ 58
   \<and> fl (radius (chosen_hotspot CityGrid_default edge_loc_draw))
       < degree_dist (5737867400246723 / 2 ^ 47, - 5205879694263583 / 2 ^ 46)
           (center_double (chosen_hotspot CityGrid_default edge_loc_draw))"
proof -
  have b: "u_bias edge_loc_draw < fl 1" by (simp add: fl_one edge_loc_draw_def)
  have k: "k_category edge_loc_draw < length (hotspots CityGrid_default)"
    "k_hotspot edge_loc_draw
       < length (snd (hotspots CityGrid_default ! k_category edge_loc_draw))"
    using edge_draw_ok by (simp_all add: loc_draw_ok_def)
  have lat: "fl (fl 40.75 + fl (5764607523034234 / 2 ^ 58 * cos 0)) = 5737867400246723 / 2 ^ 47"
  proof -
    have "fl (5764607523034234 / 2 ^ 58 * cos 0)
            = fl (fl (5764607523034235 / 2 ^ 58 * (1 - 1 / 2 ^ 53)))"
      by (simp only: fl_edge_radius cos_zero mult_1_right)
    also have "\<dots> = 5764607523034234 / 2 ^ 58" by (simp only: fl_idem, rule fl_edge_radius)
    finally show ?thesis by (simp only: fl_lat_midtown fl_edge_lat)
  qed
  have lon: "fl (fl (- 73.98) + fl (5764607523034234 / 2 ^ 58 * sin 0))
               = - 5205879694263583 / 2 ^ 46"
  proof -
    have z: "fl (5764607523034234 / 2 ^ 58 * sin 0) = 0" by (simp add: fl_zero)
    have "fl (fl (- 73.98) + fl (5764607523034234 / 2 ^ 58 * sin 0)) = fl (fl (- 73.98) + 0)"
      by (simp only: z)
    also have "\<dots> = fl (fl (- 73.98))" by (simp only: add_0_right)
    also have "\<dots> = fl (- 73.98)" by (rule fl_idem)
    also have "\<dots> = - 5205879694263583 / 2 ^ 46" by (rule fl_lon_midtown)
    finally show ?thesis .
  qed
  have p: "get_random_location_double cos sin CityGrid_default 1 edge_loc_draw
             = Inr (5737867400246723 / 2 ^ 47, - 5205879694263583 / 2 ^ 46)"
    unfolding hotspot_branch_double [OF b k default_grid_keys] edge_radial edge_angle
    unfolding edge_chosen using lat lon by simp
  have c: "center_double (chosen_hotspot CityGrid_default edge_loc_draw)
             = (40.75, - 5205879694263583 / 2 ^ 46)"
    unfolding edge_chosen center_double_def using fl_lat_midtown fl_lon_midtown by simp
  have r: "fl (radius (chosen_hotspot CityGrid_default edge_loc_draw)) = 5764607523034235 / 2 ^ 58"
    unfolding edge_chosen using fl_radius_midtown by simp
  have same: "degree_dist (x, y) (a, y) = \<bar>x - a\<bar>" for x y a :: real
    by (simp add: degree_dist_def)
  have "(5764607523034235::real) / 2 ^ 58 < \<bar>5737867400246723 / 2 ^ 47 - 40.75\<bar>" by simp
  then have far: "fl (radius (chosen_hotspot CityGrid_default edge_loc_draw))
       < degree_dist (5737867400246723 / 2 ^ 47, - 5205879694263583 / 2 ^ 46)
           (center_double (chosen_hotspot CityGrid_default edge_loc_draw))"
    unfolding r c same .
  show ?thesis using p c r far by blast
qed


text \<open>
  Claim C5, amended. For every call of the location sampler with draws that
  \<open>random.random()\<close> and \<open>random.choice\<close> can return, on a grid whose coordinates are of a
  magnitude that does not overflow, and with a C library whose \<open>cos\<close> and \<open>sin\<close> are
  accurate to \<open>2 ^ (-52)\<close> at the sampled angle: when the hotspot-biased branch is taken,
  which is always so for a bias of 1.0, the call returns a point whose planar distance from
  the chosen hotspot's centre is at most the radius plus a rounding allowance of
  \<open>radius * 2 ^ (-49) + (|lat| + |lon|) * 2 ^ (-53) + 2 ^ (-1072)\<close>, with the centre
  \<open>(lat, lon)\<close> and the radius as the doubles of the table (about \<open>1.3e-14\<close> degrees for
  the built-in hotspots); when the uniform branch is taken, which is always so for a bias of
  0.0, the returned latitude and longitude lie within the configured bounding ranges.
\<close>

theorem sampled_location_double_bounds:
  assumes "0 \<le> u_bias d" "u_bias d < 1"
    and "0 \<le> u_radius d" "u_radius d \<le> 1 - 1 / 2 ^ 53"
    and "0 \<le> u_lat d" "u_lat d \<le> 1 - 1 / 2 ^ 53"
    and "0 \<le> u_lon d" "u_lon d \<le> 1 - 1 / 2 ^ 53"
    and "k_category d < length (hotspots self)"
    and "k_hotspot d < length (snd (hotspots self ! k_category d))"
    and "distinct (map fst (hotspots self))"
    and "0 \<le> radius (chosen_hotspot self d)"
    and "finite_inputs self d"
    and "\<bar>libm_cos (sampled_angle d) - cos (sampled_angle d)\<bar> \<le> 1 / 2 ^ 52"
    and "\<bar>libm_sin (sampled_angle d) - sin (sampled_angle d)\<bar> \<le> 1 / 2 ^ 52"
  shows "(u_bias d < fl hotspot_bias \<longrightarrow>
           (\<exists>p. get_random_location_double libm_cos libm_sin self hotspot_bias d = Inr p
              \<and> degree_dist p (center_double (chosen_hotspot self d))
                  \<le> fl (radius (chosen_hotspot self d))
                     + rounding_allowance (chosen_hotspot self d)))
       \<and> (\<not> u_bias d < fl hotspot_bias \<longrightarrow>
           (\<exists>p. get_random_location_double libm_cos libm_sin self hotspot_bias d = Inr p
              \<and> in_range (fl (fst (lat_range self)), fl (snd (lat_range self))) (fst p)
              \<and> in_range (fl (fst (lon_range self)), fl (snd (lon_range self))) (snd p)))
       \<and> (hotspot_bias = 1 \<longrightarrow> u_bias d < fl hotspot_bias)
       \<and> (hotspot_bias = 0 \<longrightarrow> \<not> u_bias d < fl hotspot_bias)"
proof (intro conjI impI)
  assume b: "u_bias d < fl hotspot_bias"
  let ?h = "chosen_hotspot self d"
  let ?r = "uniform_double 0 (fl (radius ?h)) (u_radius d)"
  have u1: "u_radius d \<le> 1" using assms(4) by (simp add: field_simps)
  have r: "0 \<le> ?r" "?r \<le> fl (radius ?h)"
    using radial_draw_bounds [OF assms(12) assms(3) u1] by simp_all
  have "sqrt ((fl (fl (fst (center ?h)) + fl (?r * libm_cos (sampled_angle d)))
                 - fl (fst (center ?h)))\<^sup>2
              + (fl (fl (snd (center ?h)) + fl (?r * libm_sin (sampled_angle d)))
                 - fl (snd (center ?h)))\<^sup>2)
          \<le> fl (radius ?h) + fl (radius ?h) / 2 ^ 49
             + (\<bar>fl (fst (center ?h))\<bar> + \<bar>fl (snd (center ?h))\<bar>) / 2 ^ 53 + pow2 (- 1072)"
    by (rule polar_double_bound [OF r assms(14) assms(15)])
  then show "\<exists>p. get_random_location_double libm_cos libm_sin self hotspot_bias d = Inr p
              \<and> degree_dist p (center_double ?h) \<le> fl (radius ?h) + rounding_allowance ?h"
    using hotspot_branch_double [OF b assms(9) assms(10) assms(11)]
    by (simp add: degree_dist_def center_double_def rounding_allowance_def)
next
  assume b: "\<not> u_bias d < fl hotspot_bias"
  have "in_range (fl (fst (lat_range self)), fl (snd (lat_range self)))
          (uniform_double (fl (fst (lat_range self))) (fl (snd (lat_range self))) (u_lat d))"
    using uniform_double_bounds [OF fl_idem fl_idem assms(5) assms(6)]
    by (simp add: in_range_def)
  moreover have "in_range (fl (fst (lon_range self)), fl (snd (lon_range self)))
          (uniform_double (fl (fst (lon_range self))) (fl (snd (lon_range self))) (u_lon d))"
    using uniform_double_bounds [OF fl_idem fl_idem assms(7) assms(8)]
    by (simp add: in_range_def)
  ultimately show "\<exists>p. get_random_location_double libm_cos libm_sin self hotspot_bias d = Inr p
              \<and> in_range (fl (fst (lat_range self)), fl (snd (lat_range self))) (fst p)
              \<and> in_range (fl (fst (lon_range self)), fl (snd (lon_range self))) (snd p)"
    using b by (simp add: get_random_location_double_def)
next
  assume "hotspot_bias = 1"
  then show "u_bias d < fl hotspot_bias" using assms(2) by (simp add: fl_one)
next
  assume "hotspot_bias = 0"
  then show "\<not> u_bias d < fl hotspot_bias" using assms(1) by (simp add: fl_zero)
qed

theorem sampled_location_double_bounds_witness:
  "0 \<le> u_bias edge_loc_draw \<and> u_bias edge_loc_draw < 1
   \<and> 0 \<le> u_radius edge_loc_draw \<and> u_radius edge_loc_draw \<le> 1 - 1 / 2 ^ 53
   \<and> 0 \<le> u_lat edge_loc_draw \<and> u_lat edge_loc_draw \<le> 1 - 1 / 2 ^ 53
   \<and> 0 \<le> u_lon edge_loc_draw \<and> u_lon edge_loc_draw \<le> 1 - 1 / 2 ^ 53
   \<and> k_category edge_loc_draw < length (hotspots CityGrid_default)
   \<and> k_hotspot edge_loc_draw
       < length (snd (hotspots CityGrid_default ! k_category edge_loc_draw))
   \<and> distinct (map fst (hotspots CityGrid_default))
   \<and> 0 \<le> radius (chosen_hotspot CityGrid_default edge_loc_draw)
   \<and> finite_inputs CityGrid_default edge_loc_draw
   \<and> \<bar>cos (sampled_angle edge_loc_draw) - cos (sampled_angle edge_loc_draw)\<bar> \<le> 1 / 2 ^ 52
   \<and> \<bar>sin (sampled_angle edge_loc_draw) - sin (sampled_angle edge_loc_draw)\<bar> \<le> 1 / 2 ^ 52
   \<and> u_bias edge_loc_draw < fl 1 \<and> \<not> u_bias edge_loc_draw < fl 0
   \<and> (\<exists>p. get_random_location_double cos sin CityGrid_default 1 edge_loc_draw = Inr p
          \<and> degree_dist p (center_double (chosen_hotspot CityGrid_default edge_loc_draw))
              \<le> fl (radius (chosen_hotspot CityGrid_default edge_loc_draw))
                 + rounding_allowance (chosen_hotspot CityGrid_default edge_loc_draw))
   \<and> (\<exists>p. get_random_location_double cos sin CityGrid_default 0 edge_loc_draw = Inr p
          \<and> in_range (fl (fst (lat_range CityGrid_default)), fl (snd (lat_range CityGrid_default)))
                (fst p)
          \<and> in_range (fl (fst (lon_range CityGrid_default)), fl (snd (lon_range CityGrid_default)))
                (snd p))"
proof -
  have u: "0 \<le> u_bias edge_loc_draw" "u_bias edge_loc_draw < 1"
    "0 \<le> u_radius edge_loc_draw" "u_radius edge_loc_draw \<le> 1 - 1 / 2 ^ 53"
    "0 \<le> u_lat edge_loc_draw" "u_lat edge_loc_draw \<le> 1 - 1 / 2 ^ 53"
    "0 \<le> u_lon edge_loc_draw" "u_lon edge_loc_draw \<le> 1 - 1 / 2 ^ 53"
    by (simp_all add: edge_loc_draw_def)
  have k: "k_category edge_loc_draw < length (hotspots CityGrid_default)"
    "k_hotspot edge_loc_draw
       < length (snd (hotspots CityGrid_default ! k_category edge_loc_draw))"
    using edge_draw_ok by (simp_all add: loc_draw_ok_def)
  note keys = default_grid_keys
  note rad = default_grid_radius [OF edge_draw_ok]
  have fin: "finite_inputs CityGrid_default edge_loc_draw"
    by (simp add: finite_inputs_def edge_chosen) (simp add: CityGrid_default_def CityGrid_init_def)
  have c: "\<bar>cos (sampled_angle edge_loc_draw) - cos (sampled_angle edge_loc_draw)\<bar> \<le> 1 / 2 ^ 52"
    and s: "\<bar>sin (sampled_angle edge_loc_draw) - sin (sampled_angle edge_loc_draw)\<bar> \<le> 1 / 2 ^ 52"
    by simp_all
  note t1 = sampled_location_double_bounds
    [where libm_cos = cos and libm_sin = sin and hotspot_bias = 1,
     OF u(1) u(2) u(3) u(4) u(5) u(6) u(7) u(8) k(1) k(2) keys rad fin c s]
  note t0 = sampled_location_double_bounds
    [where libm_cos = cos and libm_sin = sin and hotspot_bias = 0,
     OF u(1) u(2) u(3) u(4) u(5) u(6) u(7) u(8) k(1) k(2) keys rad fin c s]
  have b1: "u_bias edge_loc_draw < fl 1" and b0: "\<not> u_bias edge_loc_draw < fl 0"
    using t1 t0 by blast+
  have r1: "\<exists>p. get_random_location_double cos sin CityGrid_default 1 edge_loc_draw = Inr p
          \<and> degree_dist p (center_double (chosen_hotspot CityGrid_default edge_loc_draw))
              \<le> fl (radius (chosen_hotspot CityGrid_default edge_loc_draw))
                 + rounding_allowance (chosen_hotspot CityGrid_default edge_loc_draw)"
    using t1 b1 by blast
  have r0: "\<exists>p. get_random_location_double cos sin CityGrid_default 0 edge_loc_draw = Inr p
          \<and> in_range (fl (fst (lat_range CityGrid_default)), fl (snd (lat_range CityGrid_default)))
                (fst p)
          \<and> in_range (fl (fst (lon_range CityGrid_default)), fl (snd (lon_range CityGrid_default)))
                (snd p)"
    using t0 b0 by blast
  show ?thesis using u k keys rad fin c s b1 b0 r1 r0 by blast
qed

section \<open>Construction of the generator\<close>

text \<open>
  Claim C6, as the specification states it, fails: constructing the generator with negative
  counts raises nothing. With \<open>num_drivers = -1\<close> and \<open>num_users = -3\<close> the constructor
  returns a generator whose two pools are empty.
\<close>

theorem init_negative_counterexample:
  "RideHailingDataGenerator_init negative_config 1700000000 sample_driver_draws sample_user_draws
     = Inr \<lparr> config = negative_config,
             city_grid = CityGrid_default,
             current_time = 1700000000,
             vehicle_types =
               [(''Economy'', 4), (''Comfort'', 4), (''Premium'', 4), (''SUV'', 6), (''Van'', 8)],
             drivers = [],
             users = [],
             active_rides = [] \<rparr>"
  by (simp add: RideHailingDataGenerator_init_def negative_config_def initialize_drivers_def
      initialize_users_def range_len_def)

text \<open>
  Claim C6, amended. Constructing the generator validates nothing and rejects no
  configuration: for every configuration, and draws that the random module can return, the
  constructor returns a generator; a negative \<open>num_drivers\<close> gives an empty driver pool and
  a negative \<open>num_users\<close> an empty user pool, as a count of zero does. The user pool it
  builds has unique keys and stores every user under its own \<open>user_id\<close>.
\<close>

theorem init_never_rejects:
  assumes "\<forall>i. driver_draw_ok (dds i)" "\<forall>i. user_draw_ok (uds i)"
  shows "\<exists>self. RideHailingDataGenerator_init cfg now dds uds = Inr self
           \<and> (num_drivers cfg < 0 \<longrightarrow> drivers self = [])
           \<and> (num_users cfg < 0 \<longrightarrow> users self = [])
           \<and> users_wf (users self)"
proof -
  define self0 where "self0 =
     \<lparr> config = cfg, city_grid = CityGrid_default, current_time = now,
       vehicle_types =
         [(''Economy'', 4), (''Comfort'', 4), (''Premium'', 4), (''SUV'', 6), (''Van'', (8::int))],
       drivers = [], users = [], active_rides = [] \<rparr>"
  have g: "city_grid self0 = CityGrid_default"
    "city_grid (self0\<lparr>drivers := drvs\<rparr>) = CityGrid_default" for drvs
    by (simp_all add: self0_def)
  have v: "vehicle_types self0 =
             [(''Economy'', 4), (''Comfort'', 4), (''Premium'', 4), (''SUV'', 6), (''Van'', 8)]"
    "vehicle_types (self0\<lparr>drivers := drvs\<rparr>) =
             [(''Economy'', 4), (''Comfort'', 4), (''Premium'', 4), (''SUV'', 6), (''Van'', 8)]"
    for drvs
    by (simp_all add: self0_def)
  obtain drvs where d: "initialize_drivers self0 (num_drivers cfg) dds = Inr drvs"
    unfolding initialize_drivers_def
    using initialize_drivers_loop_total [OF assms(1) g(1) v(1)] by blast
  obtain usrs where
    u: "initialize_users (self0\<lparr>drivers := drvs\<rparr>) (num_users cfg) uds = Inr usrs"
    unfolding initialize_users_def
    using initialize_users_loop_total [OF assms(2) g(2) v(2)] by blast
  have r: "RideHailingDataGenerator_init cfg now dds uds
             = Inr (self0\<lparr>drivers := drvs, users := usrs\<rparr>)"
    using d u by (simp add: RideHailingDataGenerator_init_def Let_def self0_def)
  have dn: "drvs = []" if "num_drivers cfg < 0"
    using d that by (simp add: initialize_drivers_def range_len_neg)
  have un: "usrs = []" if "num_users cfg < 0"
    using u that by (simp add: initialize_users_def range_len_neg)
  have wf: "users_wf usrs"
    using u by (auto simp: initialize_users_def users_wf_def dest!: initialize_users_loop_wf)
  show ?thesis using r dn un wf by simp
qed

theorem init_never_rejects_witness:
  "(\<forall>i. driver_draw_ok (sample_driver_draws i)) \<and> (\<forall>i. user_draw_ok (sample_user_draws i))
   \<and> num_drivers negative_config < 0 \<and> num_users negative_config < 0
   \<and> (\<exists>self. RideHailingDataGenerator_init negative_config 1700000000
                 sample_driver_draws sample_user_draws = Inr self
          \<and> drivers self = [] \<and> users self = [] \<and> users_wf (users self))"
proof -
  have h1: "\<forall>i. driver_draw_ok (sample_driver_draws i)"
    and h2: "\<forall>i. user_draw_ok (sample_user_draws i)"
    by (simp_all add: sample_draws_ok)
  have n: "num_drivers negative_config < 0" "num_users negative_config < 0"
    by (simp_all add: negative_config_def)
  show ?thesis
    using h1 h2 n init_never_rejects [OF h1 h2, of negative_config 1700000000] by blast
qed

section \<open>The request batch of a tick\<close>

text \<open>
  Claim C1, as the specification states it, fails: on an empty user pool the method raises
  \<open>IndexError\<close> in its first loop iteration and returns no batch, empty or otherwise.
\<close>

theorem tick_empty_pool_counterexample:
  "fst (generate_ride_requests empty_pool_generator 0 sample_request_draws) = Inl IndexError
   \<and> fst (generate_ride_requests empty_pool_generator 0 sample_request_draws) \<noteq> Inr []"
  by (simp add: generate_ride_requests_def empty_pool_generator_def sample_generator_def
      gauss_def py_int_def range_len_def new_request_def eval_nat_numeral random_choice_def
      Let_def)

text \<open>
  Claim C1, amended. For every generator whose user pool is empty, and every draw, the
  method raises \<open>IndexError\<close> (the choice of a user from an empty sequence) instead of
  returning a batch, and leaves the generator, its clock included, as it was.
\<close>

theorem tick_empty_pool_faults:
  assumes "users self = []"
  shows "generate_ride_requests self z ds = (Inl IndexError, self)"
proof -
  obtain m where
    m: "range_len (max 1 (py_int (gauss (base_request_rate (config self)) 1 z))) = Suc m"
    using range_len_max_pos by blast
  show ?thesis
    by (simp add: generate_ride_requests_def Let_def m new_request_empty [OF assms])
qed

theorem tick_empty_pool_faults_witness:
  "users empty_pool_generator = []
   \<and> generate_ride_requests empty_pool_generator (3 / 2) sample_request_draws
       = (Inl IndexError, empty_pool_generator)"
proof -
  have h: "users empty_pool_generator = []" by (simp add: empty_pool_generator_def)
  show ?thesis using h tick_empty_pool_faults [OF h, of "3 / 2" sample_request_draws] by simp
qed

text \<open>
  Claim C2, as the specification states it, fails: the batch size truncates the Gaussian
  draw toward zero instead of rounding it. With a base rate of 5 and a normal draw of 0.7
  the Gaussian value is 5.7; the tick emits 5 requests, where \<open>max(1, round(5.7))\<close> is 6.
\<close>

theorem tick_batch_size_counterexample:
  "batch_size (generate_ride_requests sample_generator (7 / 10) sample_request_draws) = Some 5
   \<and> max 1 (py_round (gauss (base_request_rate (config sample_generator)) 1 (7 / 10))) = 6"
  by (simp add: batch_size_def generate_ride_requests_def sample_generator_def gauss_def
      py_int_def range_len_def new_request_def eval_nat_numeral random_choice_def py_round_def
      Let_def)

text \<open>
  Claim C2, amended. For every tick of a generator whose user pool is not empty, the method
  returns a batch whose size is \<open>max(1, int(g))\<close>, where \<open>g\<close> is the Gaussian draw with mean
  \<open>base_request_rate\<close> and standard deviation 1 made on that tick and \<open>int\<close> truncates toward
  zero; consequently the batch has at least one request.
\<close>

theorem tick_batch_size:
  assumes "users self \<noteq> []"
  shows "\<exists>batch. generate_ride_requests self z ds
                   = (Inr batch, self\<lparr>current_time := current_time self + 5\<rparr>)
               \<and> int (length batch)
                   = max 1 (py_int (gauss (base_request_rate (config self)) 1 z))
               \<and> 1 \<le> length batch"
proof -
  let ?n = "range_len (max 1 (py_int (gauss (base_request_rate (config self)) 1 z)))"
  obtain batch where loop: "requests_loop self ds 0 ?n [] = Inr batch"
    using requests_loop_total [OF assms] by blast
  then have g: "generate_ride_requests self z ds
                  = (Inr batch, self\<lparr>current_time := current_time self + 5\<rparr>)"
    by (simp add: generate_ride_requests_def Let_def)
  from tick_Inr [OF g]
  have len: "int (length batch) = max 1 (py_int (gauss (base_request_rate (config self)) 1 z))"
    by simp
  then have "1 \<le> int (length batch)" by simp
  then have "1 \<le> length batch" by simp
  with g len show ?thesis by blast
qed

theorem tick_batch_size_witness:
  "users sample_generator \<noteq> []
   \<and> (\<exists>batch. generate_ride_requests sample_generator (7 / 10) sample_request_draws
                 = (Inr batch, sample_generator\<lparr>current_time := 1700000005\<rparr>)
             \<and> int (length batch) = 5 \<and> 1 \<le> length batch)"
proof -
  have h: "users sample_generator \<noteq> []" by (simp add: sample_generator_def)
  have t: "current_time sample_generator + 5 = 1700000005"
    by (simp add: sample_generator_def)
  have g: "max 1 (py_int (gauss (base_request_rate (config sample_generator)) 1 (7 / 10))) = 5"
    by (simp add: sample_generator_def gauss_def py_int_def)
  show ?thesis
    using h tick_batch_size [OF h, of "7 / 10" sample_request_draws] unfolding t g by blast
qed

text \<open>
  Claim C7. For every request that a tick emits: it is built from the user at the position
  that the uniform index draw of \<open>random.choice\<close> selects in the user pool, every position of
  the pool being selected by exactly its own index; its \<open>user_id\<close> is the \<open>user_id\<close> of that
  entry of the pool and the key under which the pool holds it; its pickup location is that
  user's home location, its destination that user's work location, its vehicle type that
  user's preferred vehicle type, and its status is REQUESTED.
\<close>

theorem tick_request_fields:
  assumes "\<forall>i. k_user (ds i) < length (users self)"
    and "users_wf (users self)"
    and "generate_ride_requests self z ds = (Inr batch, self')"
  shows "(\<forall>i<length batch.
            random_choice (map snd (users self)) (k_user (ds i))
              = Inr (snd (users self ! k_user (ds i)))
          \<and> users self ! k_user (ds i) \<in> set (users self)
          \<and> map_of (users self) (user_id_rq (batch ! i))
              = Some (snd (users self ! k_user (ds i)))
          \<and> user_id_rq (batch ! i) = user_id (snd (users self ! k_user (ds i)))
          \<and> pickup_location (batch ! i) = home_location (snd (users self ! k_user (ds i)))
          \<and> destination (batch ! i) = work_location (snd (users self ! k_user (ds i)))
          \<and> vehicle_type_rq (batch ! i)
              = preferred_vehicle_type (snd (users self ! k_user (ds i)))
          \<and> status_rq (batch ! i) = ''REQUESTED'')
       \<and> (\<forall>k<length (users self).
            random_choice (map snd (users self)) k = Inr (snd (users self ! k)))"
proof -
  have choice: "random_choice (map snd (users self)) k = Inr (snd (users self ! k))"
    if "k < length (users self)" for k
    using that by (simp add: random_choice_nth)
  from tick_Inr [OF assms(3)]
  have new: "\<forall>i<length batch. new_request self (ds i) = Inr (batch ! i)" by blast
  have fields: "random_choice (map snd (users self)) (k_user (ds i))
              = Inr (snd (users self ! k_user (ds i)))
          \<and> users self ! k_user (ds i) \<in> set (users self)
          \<and> map_of (users self) (user_id_rq (batch ! i))
              = Some (snd (users self ! k_user (ds i)))
          \<and> user_id_rq (batch ! i) = user_id (snd (users self ! k_user (ds i)))
          \<and> pickup_location (batch ! i) = home_location (snd (users self ! k_user (ds i)))
          \<and> destination (batch ! i) = work_location (snd (users self ! k_user (ds i)))
          \<and> vehicle_type_rq (batch ! i)
              = preferred_vehicle_type (snd (users self ! k_user (ds i)))
          \<and> status_rq (batch ! i) = ''REQUESTED''"
    if i: "i < length batch" for i
  proof -
    let ?k = "k_user (ds i)"
    let ?u = "snd (users self ! ?k)"
    have k: "?k < length (users self)" using assms(1) by simp
    have mem: "users self ! ?k \<in> set (users self)" using k by simp
    have key: "user_id ?u = fst (users self ! ?k)"
      using assms(2) mem by (auto simp: users_wf_def list_all_iff)
    have "map_of (users self) (fst (users self ! ?k)) = Some ?u"
      using assms(2) mem by (simp add: users_wf_def)
    then have look: "map_of (users self) (user_id ?u) = Some ?u" using key by simp
    have r: "batch ! i =
       \<lparr> request_id = ''R-'' @ take 8 (uuid_request (ds i)),
         user_id_rq = user_id ?u,
         timestamp = current_time self + randint 0 4 (k_jitter (ds i)),
         pickup_location = home_location ?u,
         destination = work_location ?u,
         status_rq = ''REQUESTED'',
         vehicle_type_rq = preferred_vehicle_type ?u,
         estimated_fare = py_round_ndigits (uniform 5.0 50.0 (u_fare (ds i))) 2,
         estimated_duration = randint 5 45 (k_duration (ds i)),
         estimated_distance = py_round_ndigits (uniform 1.0 20.0 (u_distance (ds i))) 2,
         passenger_count = randint 1 4 (k_passengers (ds i)) \<rparr>"
      using new [rule_format, OF i] by (simp add: new_request_def choice [OF k])
    show ?thesis using choice [OF k] mem look by (simp add: r)
  qed
  show ?thesis using fields choice by blast
qed

theorem tick_request_fields_witness:
  "(\<forall>i. k_user (sample_request_draws i) < length (users sample_generator))
   \<and> users_wf (users sample_generator)
   \<and> generate_ride_requests sample_generator (- 10) sample_request_draws
       = (Inr [sample_request], sample_generator\<lparr>current_time := 1700000005\<rparr>)
   \<and> map_of (users sample_generator) (user_id_rq sample_request) = Some sample_user
   \<and> user_id_rq sample_request = user_id sample_user
   \<and> pickup_location sample_request = home_location sample_user
   \<and> destination sample_request = work_location sample_user
   \<and> vehicle_type_rq sample_request = preferred_vehicle_type sample_user
   \<and> status_rq sample_request = ''REQUESTED''"
proof -
  have h1: "\<forall>i. k_user (sample_request_draws i) < length (users sample_generator)"
    by (simp add: sample_request_draws_def sample_generator_def)
  have h2: "users_wf (users sample_generator)"
    by (simp add: users_wf_def sample_generator_def sample_user_def)
  note h3 = sample_tick
  have u: "snd (users sample_generator ! k_user (sample_request_draws 0)) = sample_user"
    by (simp add: sample_request_draws_def sample_generator_def)
  from tick_request_fields [OF h1 h2 h3]
  have all: "\<forall>i<length [sample_request].
          map_of (users sample_generator) (user_id_rq ([sample_request] ! i))
              = Some (snd (users sample_generator ! k_user (sample_request_draws i)))
          \<and> user_id_rq ([sample_request] ! i)
              = user_id (snd (users sample_generator ! k_user (sample_request_draws i)))
          \<and> pickup_location ([sample_request] ! i)
              = home_location (snd (users sample_generator ! k_user (sample_request_draws i)))
          \<and> destination ([sample_request] ! i)
              = work_location (snd (users sample_generator ! k_user (sample_request_draws i)))
          \<and> vehicle_type_rq ([sample_request] ! i)
              = preferred_vehicle_type
                  (snd (users sample_generator ! k_user (sample_request_draws i)))
          \<and> status_rq ([sample_request] ! i) = ''REQUESTED''"
    by blast
  have i0: "0 < length [sample_request]" by simp
  have n0: "[sample_request] ! 0 = sample_request" by simp
  from all [rule_format, OF i0]
  have c: "map_of (users sample_generator) (user_id_rq sample_request) = Some sample_user
      \<and> user_id_rq sample_request = user_id sample_user
      \<and> pickup_location sample_request = home_location sample_user
      \<and> destination sample_request = work_location sample_user
      \<and> vehicle_type_rq sample_request = preferred_vehicle_type sample_user
      \<and> status_rq sample_request = ''REQUESTED''"
    unfolding n0 u by blast
  show ?thesis using h1 h2 h3 c by blast
qed

text \<open>
  Claim C8. For every tick that produces a batch, with jitter draws that
  \<open>random.randint(0, 4)\<close> can return: each emitted request's timestamp is the clock value at
  the start of the tick plus the jitter of 0 to 4 seconds drawn for it; after the batch is
  produced the clock has advanced by exactly 5 seconds; hence the clock increases strictly
  with every tick, and after any run of ticks it stands 5 seconds per tick later.
\<close>

theorem tick_timestamps:
  assumes "\<forall>i. k_jitter (ds i) < 5"
    and "generate_ride_requests self z ds = (Inr batch, self')"
  shows "(\<forall>i<length batch. timestamp (batch ! i) = current_time self + int (k_jitter (ds i))
            \<and> current_time self \<le> timestamp (batch ! i)
            \<and> timestamp (batch ! i) \<le> current_time self + 4)
       \<and> current_time self' = current_time self + 5
       \<and> current_time self < current_time self'
       \<and> (\<forall>ts s. run_ticks self' ts = Inr s
             \<longrightarrow> current_time s = current_time self' + 5 * int (length ts))"
proof -
  from tick_Inr [OF assms(2)]
  have s: "self' = self\<lparr>current_time := current_time self + 5\<rparr>"
    and new: "\<forall>i<length batch. new_request self (ds i) = Inr (batch ! i)"
    by blast+
  have "timestamp (batch ! i) = current_time self + int (k_jitter (ds i))"
    if "i < length batch" for i
    using new [rule_format, OF that] by (rule new_request_timestamp)
  moreover have "int (k_jitter (ds i)) \<le> 4" for i
    using assms(1) [rule_format, of i] by simp
  moreover have "\<forall>ts s. run_ticks self' ts = Inr s
             \<longrightarrow> current_time s = current_time self' + 5 * int (length ts)"
    using run_ticks_clock by blast
  ultimately show ?thesis using s by (simp add: add_increasing2)
qed

theorem tick_timestamps_witness:
  "(\<forall>i. k_jitter (sample_request_draws i) < 5)
   \<and> generate_ride_requests sample_generator (- 10) sample_request_draws
       = (Inr [sample_request], sample_generator\<lparr>current_time := 1700000005\<rparr>)
   \<and> timestamp sample_request = current_time sample_generator + 3
   \<and> current_time sample_generator \<le> timestamp sample_request
   \<and> timestamp sample_request \<le> current_time sample_generator + 4
   \<and> current_time (sample_generator\<lparr>current_time := 1700000005\<rparr>)
       = current_time sample_generator + 5
   \<and> run_ticks (sample_generator\<lparr>current_time := 1700000005\<rparr>)
       [(- 10, sample_request_draws), (- 10, sample_request_draws)]
       = Inr (sample_generator\<lparr>current_time := 1700000015\<rparr>)
   \<and> current_time (sample_generator\<lparr>current_time := 1700000015\<rparr>)
       = current_time (sample_generator\<lparr>current_time := 1700000005\<rparr>) + 5 * 2"
proof -
  have h1: "\<forall>i. k_jitter (sample_request_draws i) < 5"
    by (simp add: sample_request_draws_def)
  note h2 = sample_tick
  have j: "int (k_jitter (sample_request_draws 0)) = 3"
    by (simp add: sample_request_draws_def)
  have run: "run_ticks (sample_generator\<lparr>current_time := 1700000005\<rparr>)
       [(- 10, sample_request_draws), (- 10, sample_request_draws)]
       = Inr (sample_generator\<lparr>current_time := 1700000015\<rparr>)"
    by (simp add: generate_ride_requests_def sample_generator_def gauss_def py_int_def
        range_len_def new_request_def random_choice_def Let_def)
  note t = tick_timestamps [OF h1 h2]
  from t have "\<forall>i<length [sample_request].
      timestamp ([sample_request] ! i)
        = current_time sample_generator + int (k_jitter (sample_request_draws i))
      \<and> current_time sample_generator \<le> timestamp ([sample_request] ! i)
      \<and> timestamp ([sample_request] ! i) \<le> current_time sample_generator + 4"
    by blast
  from this [rule_format, of 0]
  have a: "timestamp sample_request = current_time sample_generator + 3
      \<and> current_time sample_generator \<le> timestamp sample_request
      \<and> timestamp sample_request \<le> current_time sample_generator + 4"
    unfolding j by simp
  from t have b: "current_time (sample_generator\<lparr>current_time := 1700000005\<rparr>)
       = current_time sample_generator + 5"
    by blast
  from t have "\<forall>ts s. run_ticks (sample_generator\<lparr>current_time := 1700000005\<rparr>) ts = Inr s
      \<longrightarrow> current_time s
            = current_time (sample_generator\<lparr>current_time := 1700000005\<rparr>)
              + 5 * int (length ts)"
    by blast
  from this [rule_format, OF run]
  have c: "current_time (sample_generator\<lparr>current_time := 1700000015\<rparr>)
       = current_time (sample_generator\<lparr>current_time := 1700000005\<rparr>) + 5 * 2"
    by simp
  show ?thesis using h1 h2 a b run c by blast
qed

text \<open>
  Claim C9. For every generator state and every draw, a tick leaves the driver pool and the
  user pool unchanged, keys and field values alike, whether it returns a batch or raises;
  the only component of the generator that it changes is the current clock value.
\<close>

theorem tick_frame:
  "drivers (snd (generate_ride_requests self z ds)) = drivers self
   \<and> users (snd (generate_ride_requests self z ds)) = users self
   \<and> snd (generate_ride_requests self z ds)
       = self\<lparr>current_time := current_time (snd (generate_ride_requests self z ds))\<rparr>"
  by (simp add: generate_ride_requests_def Let_def split: sum.splits)

theorem tick_frame_witness:
  "drivers (snd (generate_ride_requests sample_generator (- 10) sample_request_draws))
     = drivers sample_generator
   \<and> users (snd (generate_ride_requests sample_generator (- 10) sample_request_draws))
     = users sample_generator
   \<and> snd (generate_ride_requests sample_generator (- 10) sample_request_draws)
     = sample_generator\<lparr>current_time := 1700000005\<rparr>"
  using tick_frame [of sample_generator "- 10" sample_request_draws]
  by (simp add: sample_tick)

end
